theory Spec2Isabelle
  imports Complex_Main
begin

section \<open>Missile Command: a shallow embedding of msslcmd.py\<close>

text \<open>
  The simulation core of \<^verbatim>\<open>msslcmd.py\<close> is embedded function by function. Every
  class becomes a record, every method a function that returns the mutated object.
  Python's floats are idealised as the reals and Python's unbounded integers are \<open>int\<close>.
  The calls to \<^verbatim>\<open>random\<close> are inputs of the tick (a record \<open>rand\<close>), the pygame event
  queue is a list of events, and drawing is left out since it only reads the state.
  Field names carry a prefix where two classes share a name (\<open>x\<close>, \<open>y\<close>, \<open>active\<close>,
  \<open>color\<close>).
\<close>

subsection \<open>Constants\<close>

type_synonym color = "int \<times> int \<times> int"

definition SCREEN_WIDTH :: int where "SCREEN_WIDTH = 800"
definition SCREEN_HEIGHT :: int where "SCREEN_HEIGHT = 600"

definition WHITE :: color where "WHITE = (255, 255, 255)"
definition RED :: color where "RED = (255, 0, 0)"
definition BLUE :: color where "BLUE = (0, 100, 255)"
definition CYAN :: color where "CYAN = (0, 255, 255)"

definition ENEMY_MISSILE_SPEED :: real where "ENEMY_MISSILE_SPEED = 3 / 2"
definition PLAYER_MISSILE_SPEED :: real where "PLAYER_MISSILE_SPEED = 5"
definition EXPLOSION_MAX_RADIUS :: int where "EXPLOSION_MAX_RADIUS = 60"
definition EXPLOSION_GROWTH_RATE :: int where "EXPLOSION_GROWTH_RATE = 2"
definition EXPLOSION_DURATION :: int where "EXPLOSION_DURATION = 45"

subsection \<open>class Explosion\<close>

record explosion =
  e_x :: real
  e_y :: real
  radius :: int
  max_radius :: int
  growing :: bool
  timer :: int

definition Explosion :: "real \<Rightarrow> real \<Rightarrow> explosion" where
  "Explosion x y =
     \<lparr> e_x = x, e_y = y, radius = 0, max_radius = EXPLOSION_MAX_RADIUS,
       growing = True, timer = EXPLOSION_DURATION \<rparr>"

text \<open>\<^verbatim>\<open>Explosion.update\<close> mutates the explosion and returns whether it is still
  active; the model returns the pair.\<close>

definition explosion_grow :: "explosion \<Rightarrow> explosion" where
  "explosion_grow e =
     (if growing e
      then (let e1 = e\<lparr>radius := radius e + EXPLOSION_GROWTH_RATE\<rparr>
            in if radius e1 \<ge> max_radius e1 then e1\<lparr>growing := False\<rparr> else e1)
      else e)"

definition explosion_update :: "explosion \<Rightarrow> explosion \<times> bool" where
  "explosion_update e =
     (let e2 = (explosion_grow e)\<lparr>timer := timer (explosion_grow e) - 1\<rparr>
      in (e2, timer e2 > 0))"

definition collides_with :: "explosion \<Rightarrow> real \<Rightarrow> real \<Rightarrow> bool" where
  "collides_with e x y =
     (let distance = sqrt ((x - e_x e)\<^sup>2 + (y - e_y e)\<^sup>2)
      in distance \<le> real_of_int (radius e))"

subsection \<open>class Missile and its subclasses\<close>

record missile =
  m_x :: real
  m_y :: real
  start_x :: real
  start_y :: real
  target_x :: real
  target_y :: real
  speed :: real
  m_color :: color
  m_active :: bool
  velocity_x :: real
  velocity_y :: real

text \<open>The direction computed in \<^verbatim>\<open>Missile.__init__\<close>.\<close>

definition compute_velocity :: "real \<Rightarrow> real \<Rightarrow> real \<Rightarrow> real \<Rightarrow> real \<Rightarrow> real \<times> real" where
  "compute_velocity sx sy tx ty spd =
     (let dx = tx - sx; dy = ty - sy; distance = sqrt (dx\<^sup>2 + dy\<^sup>2)
      in if distance > 0 then ((dx / distance) * spd, (dy / distance) * spd)
         else (0, 0))"

definition Missile :: "real \<Rightarrow> real \<Rightarrow> real \<Rightarrow> real \<Rightarrow> real \<Rightarrow> color \<Rightarrow> missile" where
  "Missile sx sy tx ty spd col =
     \<lparr> m_x = sx, m_y = sy, start_x = sx, start_y = sy, target_x = tx, target_y = ty,
       speed = spd, m_color = col, m_active = True,
       velocity_x = fst (compute_velocity sx sy tx ty spd),
       velocity_y = snd (compute_velocity sx sy tx ty spd) \<rparr>"

definition missile_update :: "missile \<Rightarrow> missile" where
  "missile_update m = m\<lparr>m_x := m_x m + velocity_x m, m_y := m_y m + velocity_y m\<rparr>"

definition has_reached_target :: "missile \<Rightarrow> bool" where
  "has_reached_target m =
     (let distance = sqrt ((m_x m - target_x m)\<^sup>2 + (m_y m - target_y m)\<^sup>2)
      in distance < speed m)"

definition PlayerMissile :: "real \<Rightarrow> real \<Rightarrow> real \<Rightarrow> real \<Rightarrow> missile" where
  "PlayerMissile sx sy tx ty = Missile sx sy tx ty PLAYER_MISSILE_SPEED CYAN"

definition EnemyMissile :: "real \<Rightarrow> real \<Rightarrow> real \<Rightarrow> color \<Rightarrow> missile" where
  "EnemyMissile sx tx ty col = Missile sx 0 tx ty ENEMY_MISSILE_SPEED col"

subsection \<open>class MissileBase and class City\<close>

record base =
  b_x :: real
  b_y :: real
  side :: string
  b_active :: bool
  ammo :: int

definition MissileBase :: "real \<Rightarrow> real \<Rightarrow> string \<Rightarrow> base" where
  "MissileBase x y s = \<lparr> b_x = x, b_y = y, side = s, b_active = True, ammo = 10 \<rparr>"

text \<open>\<^verbatim>\<open>MissileBase.fire\<close> returns the new missile or \<^verbatim>\<open>None\<close>, and mutates the
  base; the model returns both.\<close>

definition fire :: "base \<Rightarrow> real \<Rightarrow> real \<Rightarrow> missile option \<times> base" where
  "fire b tx ty =
     (if b_active b \<and> ammo b > 0
      then (Some (PlayerMissile (b_x b) (b_y b) tx ty), b\<lparr>ammo := ammo b - 1\<rparr>)
      else (None, b))"

record city =
  c_x :: real
  c_y :: real
  c_active :: bool
  c_color :: color

definition City :: "real \<Rightarrow> real \<Rightarrow> city" where
  "City x y = \<lparr> c_x = x, c_y = y, c_active = True, c_color = BLUE \<rparr>"

subsection \<open>class Game\<close>

record game =
  running :: bool
  game_over :: bool
  score :: int
  level :: int
  enemy_spawn_timer :: int
  enemy_spawn_rate :: int
  starting_ammo :: int
  missiles_spawned_this_level :: int
  enemy_missile_color :: color
  flash_timer :: int
  flash_color :: color
  bases :: "base list"
  cities :: "city list"
  player_missiles :: "missile list"
  enemy_missiles :: "missile list"
  explosions :: "explosion list"
  missiles_per_level :: int

text \<open>The values drawn from \<^verbatim>\<open>random\<close> during one tick: the start column and the
  target index of a spawned missile, and the colours drawn at a level change
  (\<open>r_city_color k\<close> is the colour drawn for the \<open>k\<close>-th active city).\<close>

record rand =
  r_start_x :: int
  r_choice :: nat
  r_flash_color :: color
  r_enemy_color :: color
  r_city_color :: "nat \<Rightarrow> color"

definition color_ok :: "color \<Rightarrow> bool" where
  "color_ok c = (case c of (r, g, b) \<Rightarrow>
     100 \<le> r \<and> r \<le> 255 \<and> 100 \<le> g \<and> g \<le> 255 \<and> 100 \<le> b \<and> b \<le> 255)"

text \<open>The ranges of \<^verbatim>\<open>random.randint\<close> in the source.\<close>

definition rand_ok :: "rand \<Rightarrow> bool" where
  "rand_ok r =
     (50 \<le> r_start_x r \<and> r_start_x r \<le> SCREEN_WIDTH - 50 \<and>
      color_ok (r_flash_color r) \<and> color_ok (r_enemy_color r) \<and>
      (\<forall>k. color_ok (r_city_color r k)))"

definition setup_game :: "game \<Rightarrow> game" where
  "setup_game g =
     g\<lparr> bases :=
          map (\<lambda>b. b\<lparr>ammo := starting_ammo g\<rparr>)
            [MissileBase 100 (real_of_int (SCREEN_HEIGHT - 40)) ''left'',
             MissileBase (real_of_int (SCREEN_WIDTH div 2)) (real_of_int (SCREEN_HEIGHT - 40)) ''center'',
             MissileBase (real_of_int (SCREEN_WIDTH - 100)) (real_of_int (SCREEN_HEIGHT - 40)) ''right''],
        cities :=
          [City 200 (real_of_int (SCREEN_HEIGHT - 35)),
           City 250 (real_of_int (SCREEN_HEIGHT - 35)),
           City 300 (real_of_int (SCREEN_HEIGHT - 35)),
           City (real_of_int (SCREEN_WIDTH - 300)) (real_of_int (SCREEN_HEIGHT - 35)),
           City (real_of_int (SCREEN_WIDTH - 250)) (real_of_int (SCREEN_HEIGHT - 35)),
           City (real_of_int (SCREEN_WIDTH - 200)) (real_of_int (SCREEN_HEIGHT - 35))],
        player_missiles := [],
        enemy_missiles := [],
        explosions := [] \<rparr>"

text \<open>\<^verbatim>\<open>Game.__init__\<close>: the fields are set, then \<^verbatim>\<open>setup_game\<close> runs, then the
  quota is the sum of the bases' ammunition.\<close>

definition Game_init :: game where
  "Game_init =
     (let g0 = \<lparr> running = True, game_over = False, score = 0, level = 1,
                 enemy_spawn_timer = 0, enemy_spawn_rate = 60, starting_ammo = 10,
                 missiles_spawned_this_level = 0, enemy_missile_color = RED,
                 flash_timer = 0, flash_color = WHITE,
                 bases = [], cities = [], player_missiles = [], enemy_missiles = [],
                 explosions = [], missiles_per_level = 0 \<rparr>;
          g1 = setup_game g0
      in g1\<lparr>missiles_per_level := sum_list (map ammo (bases g1))\<rparr>)"

fun recolor :: "(nat \<Rightarrow> color) \<Rightarrow> nat \<Rightarrow> city list \<Rightarrow> city list" where
  "recolor f k [] = []"
| "recolor f k (c # cs) =
     (if c_active c then c\<lparr>c_color := f k\<rparr> # recolor f (Suc k) cs
      else c # recolor f k cs)"

definition randomize_colors :: "rand \<Rightarrow> game \<Rightarrow> game" where
  "randomize_colors r g =
     g\<lparr> enemy_missile_color := r_enemy_color r,
        cities := recolor (r_city_color r) 0 (cities g) \<rparr>"

definition possible_targets :: "game \<Rightarrow> (real \<times> real) list" where
  "possible_targets g =
     map (\<lambda>c. (c_x c, c_y c)) (filter c_active (cities g)) @
     map (\<lambda>b. (b_x b, b_y b)) (filter b_active (bases g))"

definition spawn_enemy_missile :: "rand \<Rightarrow> game \<Rightarrow> game" where
  "spawn_enemy_missile r g =
     (let sx = real_of_int (r_start_x r); pt = possible_targets g
      in if pt \<noteq> []
         then (case pt ! (r_choice r mod length pt) of (tx, ty) \<Rightarrow>
                 g\<lparr> enemy_missiles :=
                      enemy_missiles g @ [EnemyMissile sx tx ty (enemy_missile_color g)],
                    missiles_spawned_this_level := missiles_spawned_this_level g + 1 \<rparr>)
         else g)"

subsection \<open>Game.handle\_events\<close>

datatype event = QUIT | MOUSEBUTTONDOWN int int int | KEYDOWN int | OTHER_EVENT

datatype py_error = IndexError

definition K_SPACE :: int where "K_SPACE = 32"

text \<open>\<^verbatim>\<open>self.bases[i].fire(mouse_x, mouse_y)\<close> followed by the append of the missile.
  An index outside the list raises \<^verbatim>\<open>IndexError\<close>.\<close>

definition fire_from :: "nat \<Rightarrow> real \<Rightarrow> real \<Rightarrow> game \<Rightarrow> py_error + game" where
  "fire_from i tx ty g =
     (if i < length (bases g)
      then (case fire (bases g ! i) tx ty of
              (Some m, b') \<Rightarrow>
                Inr (g\<lparr>bases := (bases g)[i := b'], player_missiles := player_missiles g @ [m]\<rparr>)
            | (None, b') \<Rightarrow> Inr (g\<lparr>bases := (bases g)[i := b']\<rparr>))
      else Inl IndexError)"

definition restart :: "game \<Rightarrow> game" where
  "restart g = setup_game (g\<lparr>game_over := False, score := 0, level := 1\<rparr>)"

fun handle_event :: "event \<Rightarrow> game \<Rightarrow> py_error + game" where
  "handle_event QUIT g = Inr (g\<lparr>running := False\<rparr>)"
| "handle_event (MOUSEBUTTONDOWN button mouse_x mouse_y) g =
     (if \<not> game_over g
      then (if button = 1 then fire_from 0 (real_of_int mouse_x) (real_of_int mouse_y) g
            else if button = 2 then fire_from 1 (real_of_int mouse_x) (real_of_int mouse_y) g
            else if button = 3 then fire_from 2 (real_of_int mouse_x) (real_of_int mouse_y) g
            else Inr g)
      else Inr g)"
| "handle_event (KEYDOWN key) g =
     (if key = K_SPACE \<and> game_over g then Inr (restart g) else Inr g)"
| "handle_event OTHER_EVENT g = Inr g"

fun handle_events :: "event list \<Rightarrow> game \<Rightarrow> py_error + game" where
  "handle_events [] g = Inr g"
| "handle_events (e # es) g =
     (case handle_event e g of Inl err \<Rightarrow> Inl err | Inr g' \<Rightarrow> handle_events es g')"

subsection \<open>Game.update\<close>

text \<open>The loop over a snapshot of \<^verbatim>\<open>self.player_missiles\<close>. Each missile object is
  moved in place; \<^verbatim>\<open>list.remove\<close> takes out that very object (the classes define no
  equality, so Python compares identities), so the live list after the loop is the
  snapshot without the removed objects, in order. The model walks the snapshot and
  collects the missiles that stay in \<open>kept\<close>.\<close>

fun player_loop :: "missile list \<Rightarrow> missile list \<Rightarrow> game \<Rightarrow> game" where
  "player_loop [] kept g = g\<lparr>player_missiles := kept\<rparr>"
| "player_loop (m0 # ms) kept g =
     (let m = missile_update m0
      in if has_reached_target m
         then player_loop ms kept
                (g\<lparr>explosions := explosions g @ [Explosion (target_x m) (target_y m)]\<rparr>)
         else if m_y m < 0 \<or> m_x m < 0 \<or> m_x m > real_of_int SCREEN_WIDTH
         then player_loop ms kept g
         else player_loop ms (kept @ [m]) g)"

text \<open>The inner loop over \<^verbatim>\<open>self.explosions\<close> with its \<^verbatim>\<open>break\<close>: the value of
  \<^verbatim>\<open>destroyed\<close> afterwards.\<close>

fun destroyed_by :: "explosion list \<Rightarrow> real \<Rightarrow> real \<Rightarrow> bool" where
  "destroyed_by [] x y = False"
| "destroyed_by (e # es) x y = (if collides_with e x y then True else destroyed_by es x y)"

text \<open>The loop over the cities with its \<^verbatim>\<open>break\<close>: the first active city within
  20 units is deactivated and an explosion is returned for it.\<close>

fun hit_city :: "real \<Rightarrow> city list \<Rightarrow> city list \<times> explosion list" where
  "hit_city x [] = ([], [])"
| "hit_city x (c # cs) =
     (if c_active c \<and> \<bar>c_x c - x\<bar> < 20
      then (c\<lparr>c_active := False\<rparr> # cs, [Explosion (c_x c) (c_y c)])
      else (c # fst (hit_city x cs), snd (hit_city x cs)))"

fun hit_base :: "real \<Rightarrow> base list \<Rightarrow> base list \<times> explosion list" where
  "hit_base x [] = ([], [])"
| "hit_base x (b # bs) =
     (if b_active b \<and> \<bar>b_x b - x\<bar> < 20
      then (b\<lparr>b_active := False\<rparr> # bs, [Explosion (b_x b) (b_y b)])
      else (b # fst (hit_base x bs), snd (hit_base x bs)))"

text \<open>What the source does once a missile has hit the ground and has been removed:
  the loop over the cities, then the loop over the bases.\<close>

definition ground_impact :: "real \<Rightarrow> game \<Rightarrow> game" where
  "ground_impact x g =
     (let g1 = g\<lparr> cities := fst (hit_city x (cities g)),
                  explosions := explosions g @ snd (hit_city x (cities g)) \<rparr>
      in g1\<lparr> bases := fst (hit_base x (bases g1)),
             explosions := explosions g1 @ snd (hit_base x (bases g1)) \<rparr>)"

text \<open>The body of the loop over the enemy missiles for one missile: the missile after
  its move if it stays in the list, and the game after the side effects.\<close>

definition resolve_threat :: "missile \<Rightarrow> game \<Rightarrow> missile option \<times> game" where
  "resolve_threat m0 g =
     (let m = missile_update m0
      in if destroyed_by (explosions g) (m_x m) (m_y m)
         then (None, g\<lparr>score := score g + 25\<rparr>)
         else if m_y m \<ge> real_of_int (SCREEN_HEIGHT - 50)
         then (None, ground_impact (m_x m) g)
         else (Some m, g))"

fun enemy_loop :: "missile list \<Rightarrow> missile list \<Rightarrow> game \<Rightarrow> game" where
  "enemy_loop [] kept g = g\<lparr>enemy_missiles := kept\<rparr>"
| "enemy_loop (m0 # ms) kept g =
     (case resolve_threat m0 g of
        (None, g') \<Rightarrow> enemy_loop ms kept g'
      | (Some m, g') \<Rightarrow> enemy_loop ms (kept @ [m]) g')"

fun explosion_loop :: "explosion list \<Rightarrow> explosion list" where
  "explosion_loop [] = []"
| "explosion_loop (e # es) =
     (case explosion_update e of
        (e', alive) \<Rightarrow> if \<not> alive then explosion_loop es else e' # explosion_loop es)"

definition flash_phase :: "game \<Rightarrow> game" where
  "flash_phase g = (if flash_timer g > 0 then g\<lparr>flash_timer := flash_timer g - 1\<rparr> else g)"

definition spawn_phase :: "rand \<Rightarrow> game \<Rightarrow> game" where
  "spawn_phase r g =
     (let g1 = g\<lparr>enemy_spawn_timer := enemy_spawn_timer g + 1\<rparr>
      in if enemy_spawn_timer g1 \<ge> enemy_spawn_rate g1 \<and>
            missiles_spawned_this_level g1 < missiles_per_level g1
         then (spawn_enemy_missile r g1)\<lparr>enemy_spawn_timer := 0\<rparr>
         else g1)"

definition player_phase :: "game \<Rightarrow> game" where
  "player_phase g = player_loop (player_missiles g) [] g"

definition enemy_phase :: "game \<Rightarrow> game" where
  "enemy_phase g = enemy_loop (enemy_missiles g) [] g"

definition explosion_phase :: "game \<Rightarrow> game" where
  "explosion_phase g = g\<lparr>explosions := explosion_loop (explosions g)\<rparr>"

definition game_over_check :: "game \<Rightarrow> game" where
  "game_over_check g =
     (let all_cities_destroyed = list_all (\<lambda>c. \<not> c_active c) (cities g)
      in if all_cities_destroyed then g\<lparr>game_over := True\<rparr> else g)"

text \<open>The condition of the level-completion branch.\<close>

definition level_complete_cond :: "game \<Rightarrow> bool" where
  "level_complete_cond g =
     (let any_city_alive = list_ex c_active (cities g)
      in length (enemy_missiles g) = 0 \<and>
         missiles_spawned_this_level g \<ge> missiles_per_level g \<and>
         any_city_alive)"

fun city_bonus :: "city list \<Rightarrow> int \<Rightarrow> int" where
  "city_bonus [] s = s"
| "city_bonus (c # cs) s = city_bonus cs (if c_active c then s + 100 else s)"

text \<open>The loop that regenerates and refills the bases; the score is threaded.\<close>

fun refill_bases :: "int \<Rightarrow> base list \<Rightarrow> int \<Rightarrow> base list \<times> int" where
  "refill_bases sa [] s = ([], s)"
| "refill_bases sa (b # bs) s =
     (let b' = b\<lparr>b_active := True, ammo := sa\<rparr>;
          s' = (if b_active b' then s + 50 else s)
      in (b' # fst (refill_bases sa bs s'), snd (refill_bases sa bs s')))"

text \<open>The body of the level-completion branch.\<close>

definition level_complete :: "rand \<Rightarrow> game \<Rightarrow> game" where
  "level_complete r g =
     (let g1 = g\<lparr>score := city_bonus (cities g) (score g)\<rparr>;
          g2 = g1\<lparr> bases := fst (refill_bases (starting_ammo g1) (bases g1) (score g1)),
                   score := snd (refill_bases (starting_ammo g1) (bases g1) (score g1)) \<rparr>;
          g3 = g2\<lparr>missiles_per_level := sum_list (map ammo (bases g2))\<rparr>;
          g4 = g3\<lparr>flash_timer := 20, flash_color := r_flash_color r\<rparr>;
          g5 = randomize_colors r g4
      in g5\<lparr> level := level g5 + 1,
             enemy_spawn_rate := max 30 (enemy_spawn_rate g5 - 5),
             enemy_spawn_timer := 0,
             missiles_spawned_this_level := 0 \<rparr>)"

definition level_check :: "rand \<Rightarrow> game \<Rightarrow> game" where
  "level_check r g = (if level_complete_cond g then level_complete r g else g)"

text \<open>The state of the tick when the game-over and level-completion conditions are
  evaluated: after the spawn and after the three entity loops.\<close>

definition entities_phase :: "rand \<Rightarrow> game \<Rightarrow> game" where
  "entities_phase r g =
     explosion_phase (enemy_phase (player_phase (spawn_phase r (flash_phase g))))"

definition update :: "rand \<Rightarrow> game \<Rightarrow> game" where
  "update r g =
     (if game_over g then g
      else level_check r (game_over_check (entities_phase r g)))"

text \<open>One iteration of \<^verbatim>\<open>Game.run\<close>: the events, then the update.\<close>

definition tick :: "event list \<Rightarrow> rand \<Rightarrow> game \<Rightarrow> py_error + game" where
  "tick es r g =
     (case handle_events es g of Inl err \<Rightarrow> Inl err | Inr g' \<Rightarrow> Inr (update r g'))"

text \<open>The states the program can be in: the initial one and those after any event or
  update.\<close>

inductive reachable :: "game \<Rightarrow> bool" where
  reach_init: "reachable Game_init"
| reach_event: "reachable g \<Longrightarrow> handle_event e g = Inr g' \<Longrightarrow> reachable g'"
| reach_update: "reachable g \<Longrightarrow> rand_ok r \<Longrightarrow> reachable (update r g)"

subsection \<open>Notions used in the statements\<close>

text \<open>The columns of the cities and bases that \<open>setup_game\<close> creates. No method
  assigns \<^verbatim>\<open>x\<close> afterwards.\<close>

definition layout :: "game \<Rightarrow> bool" where
  "layout g = (map c_x (cities g) = [200, 250, 300, 500, 550, 600] \<and>
               map b_x (bases g) = [100, 400, 700])"

text \<open>The tests of the two loops that follow a ground hit.\<close>

definition city_match :: "real \<Rightarrow> city \<Rightarrow> bool" where
  "city_match x c = (c_active c \<and> \<bar>c_x c - x\<bar> < 20)"

definition base_match :: "real \<Rightarrow> base \<Rightarrow> bool" where
  "base_match x b = (b_active b \<and> \<bar>b_x b - x\<bar> < 20)"

definition active_count :: "game \<Rightarrow> nat" where
  "active_count g = length (filter c_active (cities g)) + length (filter b_active (bases g))"

text \<open>Facts that hold in every state the program reaches (lemma \<open>reachable_inv\<close>).\<close>

definition game_inv :: "game \<Rightarrow> bool" where
  "game_inv g =
     (layout g \<and> game_over g = list_all (\<lambda>c. \<not> c_active c) (cities g) \<and>
      starting_ammo g = 10 \<and> missiles_per_level g = 30 \<and>
      list_all (\<lambda>b. 0 \<le> ammo b \<and> ammo b \<le> 10) (bases g))"

text \<open>The fields that no phase before the two checks writes, and the parts of the
  cities and bases that stay as they are.\<close>

definition static_fields :: "game \<Rightarrow> game \<Rightarrow> bool" where
  "static_fields g g' =
     (running g' = running g \<and> game_over g' = game_over g \<and> level g' = level g \<and>
      enemy_spawn_rate g' = enemy_spawn_rate g \<and> starting_ammo g' = starting_ammo g \<and>
      missiles_per_level g' = missiles_per_level g \<and>
      enemy_missile_color g' = enemy_missile_color g \<and> flash_color g' = flash_color g \<and>
      map c_x (cities g') = map c_x (cities g) \<and>
      map b_x (bases g') = map b_x (bases g) \<and>
      map ammo (bases g') = map ammo (bases g))"

text \<open>The level-completion branch was taken in this tick: it is the only code that
  writes \<^verbatim>\<open>self.level\<close> during an update.\<close>

definition level_completes :: "rand \<Rightarrow> game \<Rightarrow> bool" where
  "level_completes r g = (level (update r g) = level g + 1)"

text \<open>An explosion after \<open>n\<close> calls of its \<^verbatim>\<open>update\<close>.\<close>

definition explosion_after :: "nat \<Rightarrow> explosion \<Rightarrow> explosion" where
  "explosion_after n e = ((\<lambda>e. fst (explosion_update e)) ^^ n) e"

text \<open>Successive calls of \<^verbatim>\<open>fire\<close> on one base, with the results in order.\<close>

fun fire_many :: "base \<Rightarrow> (real \<times> real) list \<Rightarrow> missile option list \<times> base" where
  "fire_many b [] = ([], b)"
| "fire_many b (t # ts) =
     (case fire b (fst t) (snd t) of
        (res, b') \<Rightarrow> (res # fst (fire_many b' ts), snd (fire_many b' ts)))"

text \<open>The number of missiles of the snapshot that the loop removes because an
  explosion contains them.\<close>

fun blast_kills :: "missile list \<Rightarrow> game \<Rightarrow> nat" where
  "blast_kills [] g = 0"
| "blast_kills (m0 # ms) g =
     (if destroyed_by (explosions g) (m_x (missile_update m0)) (m_y (missile_update m0))
      then Suc (blast_kills ms (snd (resolve_threat m0 g)))
      else blast_kills ms (snd (resolve_threat m0 g)))"

text \<open>The number of missiles of the snapshot that reach the ground, and both counts
  for the loop of one tick.\<close>

fun ground_hits :: "missile list \<Rightarrow> game \<Rightarrow> nat" where
  "ground_hits [] g = 0"
| "ground_hits (m0 # ms) g =
     (if \<not> destroyed_by (explosions g) (m_x (missile_update m0)) (m_y (missile_update m0)) \<and>
         m_y (missile_update m0) \<ge> real_of_int (SCREEN_HEIGHT - 50)
      then Suc (ground_hits ms (snd (resolve_threat m0 g)))
      else ground_hits ms (snd (resolve_threat m0 g)))"

definition tick_kills :: "rand \<Rightarrow> game \<Rightarrow> nat" where
  "tick_kills r g =
     (let g1 = player_phase (spawn_phase r (flash_phase g))
      in blast_kills (enemy_missiles g1) g1)"

definition tick_hits :: "rand \<Rightarrow> game \<Rightarrow> nat" where
  "tick_hits r g =
     (let g1 = player_phase (spawn_phase r (flash_phase g))
      in ground_hits (enemy_missiles g1) g1)"

text \<open>Level 1 before its completion, with \<open>K\<close> missiles destroyed by explosions and
  \<open>H\<close> ground hits so far: what holds of the state (\<open>level1_inv\<close>), and the runs
  from the initial state that stay inside level 1 (\<open>level1_run\<close>).\<close>

definition level1_inv :: "nat \<Rightarrow> nat \<Rightarrow> game \<Rightarrow> bool" where
  "level1_inv K H g =
     (level g = 1 \<and> score g = 25 * int K \<and>
      missiles_spawned_this_level g = int (length (enemy_missiles g)) + int K + int H \<and>
      missiles_spawned_this_level g \<le> 30 \<and> missiles_per_level g = 30 \<and>
      starting_ammo g = 10 \<and> length (bases g) = 3 \<and> length (cities g) = 6 \<and>
      (H = 0 \<longrightarrow> list_all c_active (cities g)))"

inductive level1_run :: "nat \<Rightarrow> nat \<Rightarrow> game \<Rightarrow> bool" where
  run_init: "level1_run 0 0 Game_init"
| run_event: "level1_run K H g \<Longrightarrow> \<not> game_over g \<Longrightarrow> handle_event e g = Inr g' \<Longrightarrow>
              level1_run K H g'"
| run_update: "level1_run K H g \<Longrightarrow> \<not> game_over g \<Longrightarrow> \<not> level_completes r g \<Longrightarrow>
               level1_run (K + tick_kills r g) (H + tick_hits r g) (update r g)"

text \<open>Bounds on the counters of the wave controller.\<close>

definition pacing_inv :: "game \<Rightarrow> bool" where
  "pacing_inv g =
     (0 \<le> missiles_spawned_this_level g \<and> missiles_spawned_this_level g \<le> missiles_per_level g \<and>
      30 \<le> enemy_spawn_rate g \<and> enemy_spawn_rate g \<le> 60 \<and> 1 \<le> level g \<and>
      0 \<le> enemy_spawn_timer g \<and> 0 \<le> score g)"

text \<open>What holds of an explosion from its creation to its removal from the list.\<close>

definition blast_ok :: "explosion \<Rightarrow> bool" where
  "blast_ok e =
     (max_radius e = EXPLOSION_MAX_RADIUS \<and> 0 < timer e \<and> timer e \<le> EXPLOSION_DURATION \<and>
      radius e = min (EXPLOSION_GROWTH_RATE * (EXPLOSION_DURATION - timer e)) EXPLOSION_MAX_RADIUS \<and>
      growing e = (radius e < EXPLOSION_MAX_RADIUS))"

definition all_blasts_ok :: "game \<Rightarrow> bool" where
  "all_blasts_ok g = list_all blast_ok (explosions g)"

subsection \<open>Concrete states\<close>

definition rand0 :: rand where
  "rand0 = \<lparr> r_start_x = 200, r_choice = 0, r_flash_color = (100, 150, 200),
             r_enemy_color = (255, 100, 100), r_city_color = (\<lambda>k. (100, 200, 255)) \<rparr>"

text \<open>An enemy missile that was spawned above its target, \<open>n\<close> ticks later.\<close>

definition falling :: "real \<Rightarrow> real \<Rightarrow> nat \<Rightarrow> missile" where
  "falling x ty n =
     \<lparr> m_x = x, m_y = ENEMY_MISSILE_SPEED * real n, start_x = x, start_y = 0,
       target_x = x, target_y = ty, speed = ENEMY_MISSILE_SPEED, m_color = RED,
       m_active = True, velocity_x = 0, velocity_y = ENEMY_MISSILE_SPEED \<rparr>"

text \<open>The last tick of level 1 of the scenario: 29 of the 30 missiles were destroyed
  by explosions, the last one is about to enter an explosion at full size, the six
  cities stand, and the bases have used part of their ammunition.\<close>

definition last_tick_state :: game where
  "last_tick_state =
     Game_init\<lparr> score := 29 * 25, enemy_spawn_timer := 17, missiles_spawned_this_level := 30,
                bases := map (\<lambda>b. b\<lparr>ammo := 2\<rparr>) (bases Game_init),
                enemy_missiles := [falling 300 565 198],
                explosions := [explosion_after 35 (Explosion 300 300)] \<rparr>"

text \<open>Level 1, five cities lost, the player never fired: the missile above the last
  city is one tick from the ground, six more missiles are on their way to the left
  base.\<close>

definition last_city_state :: game where
  "last_city_state =
     Game_init\<lparr> enemy_spawn_timer := 5, missiles_spawned_this_level := 12,
                cities := map (\<lambda>c. if c_x c = 600 then c else c\<lparr>c_active := False\<rparr>)
                            (cities Game_init),
                enemy_missiles :=
                  [falling 600 565 366, falling 100 560 306, falling 100 560 246,
                   falling 100 560 186, falling 100 560 126, falling 100 560 66,
                   falling 100 560 6] \<rparr>"

definition game_over_state :: game where
  "game_over_state = update rand0 last_city_state"

text \<open>A state in which every city is lost while the flag is not yet set, as it is
  inside the tick between the loop over the missiles and the check.\<close>

definition cities_lost_state :: game where
  "cities_lost_state =
     last_city_state\<lparr>cities := map (\<lambda>c. c\<lparr>c_active := False\<rparr>) (cities Game_init)\<rparr>"

text \<open>An explosion at full size just above the ground line over the first city.\<close>

definition ground_blast_state :: game where
  "ground_blast_state = Game_init\<lparr>explosions := [explosion_after 35 (Explosion 200 540)]\<rparr>"

subsection \<open>A run of the program to a game over\<close>

text \<open>The run: the player never fires; the first six missiles are spawned straight
  above the six cities, the following ones straight above the left base. \<open>scen\<close> is
  the shape of every state of the run: only the spawn timer, the spawned count, the
  cities' flags, the enemy missiles and the explosions differ from the initial state.\<close>

definition spawn_rand :: "int \<Rightarrow> nat \<Rightarrow> rand" where
  "spawn_rand x i = rand0\<lparr>r_start_x := x, r_choice := i\<rparr>"

definition scen :: "int \<Rightarrow> int \<Rightarrow> bool list \<Rightarrow> missile list \<Rightarrow> explosion list \<Rightarrow> game" where
  "scen t s act ms es =
     Game_init\<lparr> enemy_spawn_timer := t, missiles_spawned_this_level := s,
                cities := map2 (\<lambda>c a. c\<lparr>c_active := a\<rparr>) (cities Game_init) act,
                enemy_missiles := ms, explosions := es \<rparr>"

text \<open>A falling missile and an explosion \<open>k\<close> ticks later, and whether the explosion
  is still in the list then.\<close>

definition fall :: "nat \<Rightarrow> real \<times> real \<times> nat \<Rightarrow> missile" where
  "fall k p = (case p of (x, ty, n) \<Rightarrow> falling x ty (n + k))"

definition expl :: "nat \<Rightarrow> nat \<times> real \<times> real \<Rightarrow> explosion" where
  "expl k q = (case q of (j, x, y) \<Rightarrow> explosion_after (j + k) (Explosion x y))"

definition alive :: "nat \<Rightarrow> nat \<times> real \<times> real \<Rightarrow> bool" where
  "alive k q = (case q of (j, x, y) \<Rightarrow> j + k < 45)"

section \<open>Lemmas\<close>

subsection \<open>Kinematics\<close>

lemma unit_direction:
  fixes dx dy :: real
  assumes "\<not> (dx = 0 \<and> dy = 0)"
  defines "d \<equiv> sqrt (dx\<^sup>2 + dy\<^sup>2)"
  shows "d > 0" and "(dx / d)\<^sup>2 + (dy / d)\<^sup>2 = 1"
proof -
  have pos: "dx\<^sup>2 + dy\<^sup>2 > 0"
    using assms(1) by (simp add: sum_power2_gt_zero_iff)
  then show "d > 0" by (simp add: d_def)
  have "d\<^sup>2 = dx\<^sup>2 + dy\<^sup>2"
    using pos by (simp add: d_def)
  moreover have "(dx / d)\<^sup>2 + (dy / d)\<^sup>2 = (dx\<^sup>2 + dy\<^sup>2) / d\<^sup>2"
    by (simp add: power_divide add_divide_distrib)
  ultimately show "(dx / d)\<^sup>2 + (dy / d)\<^sup>2 = 1"
    using pos assms(1) by simp
qed

lemma scaled_norm:
  fixes a b s :: real
  assumes "a\<^sup>2 + b\<^sup>2 = 1"
  shows "sqrt ((a * s)\<^sup>2 + (b * s)\<^sup>2) = \<bar>s\<bar>"
proof -
  have "(a * s)\<^sup>2 + (b * s)\<^sup>2 = (a\<^sup>2 + b\<^sup>2) * s\<^sup>2"
    by (simp add: power_mult_distrib algebra_simps)
  then show ?thesis using assms by simp
qed

subsection \<open>The loops over cities and bases\<close>

lemma hit_city_x [simp]: "map c_x (fst (hit_city x cs)) = map c_x cs"
  by (induction cs) auto

lemma hit_base_x [simp]: "map b_x (fst (hit_base x bs)) = map b_x bs"
  by (induction bs) auto

lemma hit_base_ammo [simp]: "map ammo (fst (hit_base x bs)) = map ammo bs"
  by (induction bs) auto

lemma recolor_x [simp]: "map c_x (recolor f k cs) = map c_x cs"
  by (induction cs arbitrary: k) auto

lemma recolor_active [simp]: "map c_active (recolor f k cs) = map c_active cs"
  by (induction cs arbitrary: k) auto

lemma refill_bases_x [simp]: "map b_x (fst (refill_bases sa bs s)) = map b_x bs"
  by (induction bs arbitrary: s) (auto simp: Let_def)

lemma refill_bases_eq:
  "refill_bases sa bs s = (map (\<lambda>b. b\<lparr>b_active := True, ammo := sa\<rparr>) bs, s + 50 * int (length bs))"
  by (induction bs arbitrary: s) (auto simp: Let_def)

lemma city_bonus_eq: "city_bonus cs s = s + 100 * int (length (filter c_active cs))"
  by (induction cs arbitrary: s) auto

lemma hit_city_none: "\<not> list_ex (city_match x) cs \<Longrightarrow> hit_city x cs = (cs, [])"
  by (induction cs) (auto simp: city_match_def)

lemma hit_base_none: "\<not> list_ex (base_match x) bs \<Longrightarrow> hit_base x bs = (bs, [])"
  by (induction bs) (auto simp: base_match_def)

lemma hit_city_inactive:
  "list_all (\<lambda>c. \<not> c_active c) cs \<Longrightarrow> hit_city x cs = (cs, [])"
  by (induction cs) auto

lemma hit_city_some:
  "list_ex (city_match x) cs \<Longrightarrow>
   \<exists>pre c post. cs = pre @ c # post \<and> \<not> list_ex (city_match x) pre \<and> city_match x c \<and>
      hit_city x cs = (pre @ c\<lparr>c_active := False\<rparr> # post, [Explosion (c_x c) (c_y c)])"
proof (induction cs)
  case Nil
  then show ?case by simp
next
  case (Cons a cs)
  show ?case
  proof (cases "city_match x a")
    case True
    then have "a # cs = [] @ a # cs \<and> \<not> list_ex (city_match x) [] \<and> city_match x a \<and>
      hit_city x (a # cs) = ([] @ a\<lparr>c_active := False\<rparr> # cs, [Explosion (c_x a) (c_y a)])"
      by (simp add: city_match_def)
    then show ?thesis by blast
  next
    case False
    with Cons.prems have "list_ex (city_match x) cs" by simp
    from Cons.IH [OF this] obtain pre c post where
      h: "cs = pre @ c # post" "\<not> list_ex (city_match x) pre" "city_match x c"
         "hit_city x cs = (pre @ c\<lparr>c_active := False\<rparr> # post, [Explosion (c_x c) (c_y c)])"
      by blast
    have "a # cs = (a # pre) @ c # post \<and> \<not> list_ex (city_match x) (a # pre) \<and> city_match x c \<and>
      hit_city x (a # cs) = ((a # pre) @ c\<lparr>c_active := False\<rparr> # post, [Explosion (c_x c) (c_y c)])"
      using h False by (auto simp: city_match_def)
    then show ?thesis by blast
  qed
qed

lemma hit_base_some:
  "list_ex (base_match x) bs \<Longrightarrow>
   \<exists>pre b post. bs = pre @ b # post \<and> \<not> list_ex (base_match x) pre \<and> base_match x b \<and>
      hit_base x bs = (pre @ b\<lparr>b_active := False\<rparr> # post, [Explosion (b_x b) (b_y b)])"
proof (induction bs)
  case Nil
  then show ?case by simp
next
  case (Cons a bs)
  show ?case
  proof (cases "base_match x a")
    case True
    then have "a # bs = [] @ a # bs \<and> \<not> list_ex (base_match x) [] \<and> base_match x a \<and>
      hit_base x (a # bs) = ([] @ a\<lparr>b_active := False\<rparr> # bs, [Explosion (b_x a) (b_y a)])"
      by (simp add: base_match_def)
    then show ?thesis by blast
  next
    case False
    with Cons.prems have "list_ex (base_match x) bs" by simp
    from Cons.IH [OF this] obtain pre b post where
      h: "bs = pre @ b # post" "\<not> list_ex (base_match x) pre" "base_match x b"
         "hit_base x bs = (pre @ b\<lparr>b_active := False\<rparr> # post, [Explosion (b_x b) (b_y b)])"
      by blast
    have "a # bs = (a # pre) @ b # post \<and> \<not> list_ex (base_match x) (a # pre) \<and> base_match x b \<and>
      hit_base x (a # bs) = ((a # pre) @ b\<lparr>b_active := False\<rparr> # post, [Explosion (b_x b) (b_y b)])"
      using h False by (auto simp: base_match_def)
    then show ?thesis by blast
  qed
qed

lemma layout_exclusive:
  assumes "layout g" "list_ex (city_match x) (cities g)"
  shows "\<not> list_ex (base_match x) (bases g)"
proof -
  from assms(2) obtain c where c: "c \<in> set (cities g)" "\<bar>c_x c - x\<bar> < 20"
    by (auto simp: list_ex_iff city_match_def)
  from assms(1) have lc: "map c_x (cities g) = [200, 250, 300, 500, 550, 600]"
    and lb: "map b_x (bases g) = [100, 400, 700]"
    by (simp_all add: layout_def)
  from c(1) have "c_x c \<in> set (map c_x (cities g))" by simp
  then have cx: "c_x c \<in> {200, 250, 300, 500, 550, 600}"
    unfolding lc by simp
  have "\<not> \<bar>b_x b - x\<bar> < 20" if "b \<in> set (bases g)" for b
  proof -
    from that have "b_x b \<in> set (map b_x (bases g))" by simp
    then have "b_x b \<in> {100, 400, 700}"
      unfolding lb by simp
    with cx c(2) show ?thesis by auto
  qed
  then show ?thesis by (auto simp: list_ex_iff base_match_def)
qed

lemma ground_impact_fields:
  "cities (ground_impact x g) = fst (hit_city x (cities g))"
  "bases (ground_impact x g) = fst (hit_base x (bases g))"
  "explosions (ground_impact x g) =
     explosions g @ snd (hit_city x (cities g)) @ snd (hit_base x (bases g))"
  by (simp_all add: ground_impact_def Let_def)

subsection \<open>What the entity loops leave alone\<close>

lemma enemy_loop_preserves:
  assumes step: "\<And>m g. P g \<Longrightarrow> P (snd (resolve_threat m g))"
    and fin: "\<And>g k. P g \<Longrightarrow> P (g\<lparr>enemy_missiles := k\<rparr>)"
    and init: "P g"
  shows "P (enemy_loop ms kept g)"
  using init
proof (induction ms arbitrary: kept g)
  case Nil
  then show ?case by (simp add: fin)
next
  case (Cons m0 ms)
  obtain res g' where r: "resolve_threat m0 g = (res, g')" by (cases "resolve_threat m0 g")
  with step [OF Cons.prems, of m0] have "P g'" by simp
  then show ?case using r Cons.IH by (cases res) simp_all
qed

lemma player_loop_preserves:
  assumes expl: "\<And>g x y. P g \<Longrightarrow> P (g\<lparr>explosions := explosions g @ [Explosion x y]\<rparr>)"
    and fin: "\<And>g k. P g \<Longrightarrow> P (g\<lparr>player_missiles := k\<rparr>)"
    and init: "P g"
  shows "P (player_loop ms kept g)"
  using init
  by (induction ms kept g rule: player_loop.induct) (simp_all add: Let_def expl fin)

lemma static_resolve_threat: "static_fields g0 g \<Longrightarrow> static_fields g0 (snd (resolve_threat m g))"
  by (simp add: static_fields_def resolve_threat_def Let_def ground_impact_def)

lemma static_entities_phase: "static_fields g (entities_phase r g)"
proof -
  have 1: "static_fields g (flash_phase g)"
    by (simp add: static_fields_def flash_phase_def)
  have 2: "static_fields g (spawn_phase r (flash_phase g))"
    using 1 by (simp add: static_fields_def spawn_phase_def spawn_enemy_missile_def Let_def split: prod.splits)
  have 3: "static_fields g (player_phase (spawn_phase r (flash_phase g)))"
    unfolding player_phase_def
    by (rule player_loop_preserves [where P = "static_fields g"]) (use 2 in \<open>simp_all add: static_fields_def\<close>)
  have 4: "static_fields g (enemy_phase (player_phase (spawn_phase r (flash_phase g))))"
    unfolding enemy_phase_def
    by (rule enemy_loop_preserves [where P = "static_fields g"])
       (use 3 in \<open>simp_all add: static_resolve_threat\<close>, simp_all add: static_fields_def)
  show ?thesis
    unfolding entities_phase_def using 4 by (simp add: static_fields_def explosion_phase_def)
qed

subsection \<open>Facts of every reachable state\<close>

lemma setup_game_fields:
  "map c_x (cities (setup_game g)) = [200, 250, 300, 500, 550, 600]"
  "map b_x (bases (setup_game g)) = [100, 400, 700]"
  "map ammo (bases (setup_game g)) = [starting_ammo g, starting_ammo g, starting_ammo g]"
  "map b_active (bases (setup_game g)) = [True, True, True]"
  "map c_active (cities (setup_game g)) = [True, True, True, True, True, True]"
  "player_missiles (setup_game g) = []"
  "enemy_missiles (setup_game g) = []"
  "explosions (setup_game g) = []"
  by (simp_all add: setup_game_def MissileBase_def City_def SCREEN_WIDTH_def SCREEN_HEIGHT_def)

lemma setup_game_frame:
  "running (setup_game g) = running g \<and> game_over (setup_game g) = game_over g \<and>
   score (setup_game g) = score g \<and> level (setup_game g) = level g \<and>
   enemy_spawn_timer (setup_game g) = enemy_spawn_timer g \<and>
   enemy_spawn_rate (setup_game g) = enemy_spawn_rate g \<and>
   starting_ammo (setup_game g) = starting_ammo g \<and>
   missiles_spawned_this_level (setup_game g) = missiles_spawned_this_level g \<and>
   enemy_missile_color (setup_game g) = enemy_missile_color g \<and>
   flash_timer (setup_game g) = flash_timer g \<and> flash_color (setup_game g) = flash_color g \<and>
   missiles_per_level (setup_game g) = missiles_per_level g"
  by (simp add: setup_game_def)

lemma list_all_ammo: "list_all (\<lambda>b. 0 \<le> ammo b \<and> ammo b \<le> k) bs = list_all (\<lambda>a. 0 \<le> a \<and> a \<le> k) (map ammo bs)"
  by (simp add: list_all_iff)

lemma list_all_inactive: "list_all (\<lambda>c. \<not> c_active c) cs = list_all Not (map c_active cs)"
  by (simp add: list_all_iff)

lemma list_ex_active: "list_ex c_active cs = list_ex id (map c_active cs)"
  by (simp add: list_ex_iff)

lemma inv_init: "game_inv Game_init"
  by (simp add: game_inv_def layout_def Game_init_def Let_def setup_game_fields setup_game_frame
        list_all_ammo list_all_inactive)

lemma inv_restart: "game_inv g \<Longrightarrow> game_inv (restart g)"
  by (simp add: game_inv_def layout_def restart_def setup_game_fields setup_game_frame
        list_all_ammo list_all_inactive)

lemma fire_from_inv:
  assumes "game_inv g" "fire_from i tx ty g = Inr g'"
  shows "game_inv g'"
proof -
  from assms(2) have i: "i < length (bases g)"
    by (simp add: fire_from_def split: if_splits)
  define b' where "b' = snd (fire (bases g ! i) tx ty)"
  have bx: "b_x b' = b_x (bases g ! i)" and am: "0 \<le> ammo (bases g ! i) \<longrightarrow> 0 \<le> ammo b'"
    and am2: "ammo b' \<le> ammo (bases g ! i)"
    by (simp_all add: b'_def fire_def)
  have g': "bases g' = (bases g)[i := b']" "cities g' = cities g" "game_over g' = game_over g"
    "starting_ammo g' = starting_ammo g" "missiles_per_level g' = missiles_per_level g"
    using assms(2) i by (auto simp: fire_from_def b'_def split: prod.splits option.splits)
  have old: "list_all (\<lambda>b. 0 \<le> ammo b \<and> ammo b \<le> 10) (bases g)"
    using assms(1) by (simp add: game_inv_def)
  then have "0 \<le> ammo (bases g ! i) \<and> ammo (bases g ! i) \<le> 10"
    using i by (simp add: list_all_length)
  with am am2 have "0 \<le> ammo b' \<and> ammo b' \<le> 10" by simp
  with old i have new: "list_all (\<lambda>b. 0 \<le> ammo b \<and> ammo b \<le> 10) ((bases g)[i := b'])"
    by (auto simp: list_all_length nth_list_update)
  have "map b_x ((bases g)[i := b']) = map b_x (bases g)"
    using i by (simp add: map_update bx list_update_same_conv)
  with assms(1) new show ?thesis
    by (simp add: game_inv_def layout_def g')
qed

lemma inv_event: "game_inv g \<Longrightarrow> handle_event e g = Inr g' \<Longrightarrow> game_inv g'"
proof (cases e)
  case QUIT
  assume "game_inv g" "handle_event e g = Inr g'"
  with QUIT show ?thesis by (auto simp: game_inv_def layout_def)
next
  case (MOUSEBUTTONDOWN b mx my)
  assume "game_inv g" "handle_event e g = Inr g'"
  with MOUSEBUTTONDOWN show ?thesis
    by (auto split: if_splits dest: fire_from_inv)
next
  case (KEYDOWN k)
  assume "game_inv g" "handle_event e g = Inr g'"
  with KEYDOWN show ?thesis
    by (auto split: if_splits dest: inv_restart)
next
  case OTHER_EVENT
  assume "game_inv g" "handle_event e g = Inr g'"
  with OTHER_EVENT show ?thesis by simp
qed

lemma level_complete_fields:
  "cities (level_complete r g) = recolor (r_city_color r) 0 (cities g)"
  "bases (level_complete r g) = map (\<lambda>b. b\<lparr>b_active := True, ammo := starting_ammo g\<rparr>) (bases g)"
  "score (level_complete r g) =
     score g + 100 * int (length (filter c_active (cities g))) + 50 * int (length (bases g))"
  "missiles_per_level (level_complete r g) = int (length (bases g)) * starting_ammo g"
  "level (level_complete r g) = level g + 1"
  "enemy_spawn_rate (level_complete r g) = max 30 (enemy_spawn_rate g - 5)"
  "enemy_spawn_timer (level_complete r g) = 0"
  "missiles_spawned_this_level (level_complete r g) = 0"
  "flash_timer (level_complete r g) = 20"
  "flash_color (level_complete r g) = r_flash_color r"
  "enemy_missile_color (level_complete r g) = r_enemy_color r"
  "game_over (level_complete r g) = game_over g"
  "running (level_complete r g) = running g"
  "starting_ammo (level_complete r g) = starting_ammo g"
  "player_missiles (level_complete r g) = player_missiles g"
  "enemy_missiles (level_complete r g) = enemy_missiles g"
  "explosions (level_complete r g) = explosions g"
  by (simp_all add: level_complete_def Let_def randomize_colors_def refill_bases_eq city_bonus_eq
        comp_def sum_list_triv)

lemma game_over_check_eq:
  "game_over_check g = g\<lparr>game_over := game_over g \<or> list_all (\<lambda>c. \<not> c_active c) (cities g)\<rparr>"
  by (simp add: game_over_check_def)

lemma level_complete_cond_game_over_upd [simp]:
  "level_complete_cond (g\<lparr>game_over := b\<rparr>) = level_complete_cond g"
  by (simp add: level_complete_cond_def)

lemma level_complete_cond_game_over_check [simp]:
  "level_complete_cond (game_over_check g) = level_complete_cond g"
  by (simp add: game_over_check_eq level_complete_cond_def)

lemma level_check_game_over [simp]: "game_over (level_check r g) = game_over g"
  by (simp add: level_check_def level_complete_fields)

lemma level_check_active [simp]: "map c_active (cities (level_check r g)) = map c_active (cities g)"
  by (simp add: level_check_def level_complete_fields)

lemma update_playing:
  "\<not> game_over g \<Longrightarrow> update r g = level_check r (game_over_check (entities_phase r g))"
  by (simp add: update_def)

lemma update_level:
  assumes "\<not> game_over g"
  shows "level (update r g) = (if level_complete_cond (entities_phase r g) then level g + 1 else level g)"
proof -
  have "level (entities_phase r g) = level g"
    using static_entities_phase [of g r] by (simp add: static_fields_def)
  then show ?thesis
    using assms by (simp add: update_playing level_check_def level_complete_fields game_over_check_eq)
qed

lemma update_game_over:
  assumes "\<not> game_over g"
  shows "game_over (update r g) = list_all (\<lambda>c. \<not> c_active c) (cities (entities_phase r g))"
proof -
  have "game_over (entities_phase r g) = game_over g"
    using static_entities_phase [of g r] by (simp add: static_fields_def)
  then show ?thesis
    using assms by (simp add: update_playing game_over_check_eq)
qed

lemma update_active:
  assumes "\<not> game_over g"
  shows "map c_active (cities (update r g)) = map c_active (cities (entities_phase r g))"
  using assms by (simp add: update_playing game_over_check_eq)

lemma inv_update:
  assumes "game_inv g"
  shows "game_inv (update r g)"
proof (cases "game_over g")
  case True
  with assms show ?thesis by (simp add: update_def)
next
  case False
  define m where "m = entities_phase r g"
  have st: "static_fields g m"
    unfolding m_def by (rule static_entities_phase)
  have u: "update r g = level_check r (game_over_check m)"
    using False by (simp add: update_playing m_def)
  have lay: "layout m"
    using assms st by (simp add: game_inv_def layout_def static_fields_def)
  then have "map b_x (bases m) = [100, 400, 700]"
    by (simp add: layout_def)
  then have "length (map b_x (bases m)) = length [100, 400, 700 :: real]"
    by (simp only:)
  then have len: "length (bases m) = 3"
    by simp
  have 1: "layout (update r g)"
    using lay by (simp add: u layout_def level_check_def level_complete_fields game_over_check_eq comp_def)
  have 2: "game_over (update r g) = list_all (\<lambda>c. \<not> c_active c) (cities (update r g))"
    using update_game_over [OF False, of r] update_active [OF False, of r]
    by (simp add: list_all_inactive)
  have 3: "starting_ammo (update r g) = 10"
    using assms st by (simp add: u game_inv_def static_fields_def level_check_def level_complete_fields game_over_check_eq)
  have 4: "missiles_per_level (update r g) = 30"
    using assms st len by (simp add: u game_inv_def static_fields_def level_check_def level_complete_fields game_over_check_eq)
  have "list_all (\<lambda>a. 0 \<le> a \<and> a \<le> 10) (map ammo (bases m))"
    using assms st by (simp add: game_inv_def static_fields_def list_all_ammo)
  then have 5: "list_all (\<lambda>b. 0 \<le> ammo b \<and> ammo b \<le> 10) (bases (update r g))"
    using assms st 
    by (simp add: u game_inv_def static_fields_def level_check_def level_complete_fields game_over_check_eq list_all_ammo comp_def list_all_iff)
  from 1 2 3 4 5 show ?thesis by (simp add: game_inv_def)
qed

lemma reachable_inv: "reachable g \<Longrightarrow> game_inv g"
  by (induction rule: reachable.induct) (simp_all add: inv_init inv_event inv_update)

subsection \<open>The two checks at the end of the tick\<close>

lemma inactive_entities_phase:
  assumes "list_all (\<lambda>c. \<not> c_active c) (cities g)"
  shows "list_all (\<lambda>c. \<not> c_active c) (cities (entities_phase r g))"
proof -
  let ?P = "\<lambda>g. list_all (\<lambda>c. \<not> c_active c) (cities g)"
  have 1: "?P (spawn_phase r (flash_phase g))"
    using assms
    by (simp add: flash_phase_def spawn_phase_def spawn_enemy_missile_def Let_def split: prod.splits)
  have 2: "?P (player_phase (spawn_phase r (flash_phase g)))"
    unfolding player_phase_def
    by (rule player_loop_preserves [where P = ?P]) (use 1 in simp_all)
  have 3: "?P (enemy_phase (player_phase (spawn_phase r (flash_phase g))))"
    unfolding enemy_phase_def
    by (rule enemy_loop_preserves [where P = ?P])
       (use 2 in \<open>simp_all add: resolve_threat_def Let_def ground_impact_fields hit_city_inactive\<close>)
  then show ?thesis
    by (simp add: entities_phase_def explosion_phase_def)
qed

lemma level_complete_game_over_upd:
  "level_complete r (g\<lparr>game_over := b\<rparr>) = (level_complete r g)\<lparr>game_over := b\<rparr>"
  by (simp add: level_complete_def Let_def randomize_colors_def)

lemma checks_commute:
  "level_check r (game_over_check g) = game_over_check (level_check r g)"
proof -
  have "list_all (\<lambda>c. \<not> c_active c) (cities (level_check r g)) = list_all (\<lambda>c. \<not> c_active c) (cities g)"
    by (simp add: list_all_inactive)
  then show ?thesis
    by (simp add: game_over_check_eq level_check_def level_complete_game_over_upd level_complete_fields)
qed

subsection \<open>Explosions and launchers\<close>

lemma destroyed_by_iff: "destroyed_by es x y = list_ex (\<lambda>e. collides_with e x y) es"
  by (induction es) auto

lemma collides_with_iff:
  "collides_with e x y =
     (0 \<le> radius e \<and> (x - e_x e)\<^sup>2 + (y - e_y e)\<^sup>2 \<le> (real_of_int (radius e))\<^sup>2)"
proof -
  define d where "d = (x - e_x e)\<^sup>2 + (y - e_y e)\<^sup>2"
  define rr where "rr = real_of_int (radius e)"
  have d0: "0 \<le> sqrt d" by (simp add: d_def)
  have "(sqrt d \<le> rr) = (0 \<le> rr \<and> d \<le> rr\<^sup>2)"
  proof
    assume h: "sqrt d \<le> rr"
    with d0 have "0 \<le> rr" by linarith
    moreover from h have "d \<le> rr\<^sup>2" by (rule sqrt_le_D)
    ultimately show "0 \<le> rr \<and> d \<le> rr\<^sup>2" by simp
  next
    assume "0 \<le> rr \<and> d \<le> rr\<^sup>2"
    then show "sqrt d \<le> rr" by (simp add: real_le_lsqrt)
  qed
  then show ?thesis
    by (simp add: collides_with_def Let_def d_def rr_def)
qed

lemma explosion_after_fresh:
  "explosion_after n (Explosion x y) =
     \<lparr> e_x = x, e_y = y, radius = min (2 * int n) 60, max_radius = 60,
       growing = (n < 30), timer = 45 - int n \<rparr>"
proof (induction n)
  case 0
  show ?case
    by (simp add: explosion_after_def Explosion_def EXPLOSION_MAX_RADIUS_def EXPLOSION_DURATION_def)
next
  case (Suc n)
  have "explosion_after (Suc n) (Explosion x y) = fst (explosion_update (explosion_after n (Explosion x y)))"
    by (simp add: explosion_after_def)
  also have "\<dots> = \<lparr> e_x = x, e_y = y, radius = min (2 * int (Suc n)) 60, max_radius = 60,
       growing = (Suc n < 30), timer = 45 - int (Suc n) \<rparr>"
    unfolding Suc.IH
    by (auto simp add: explosion_update_def explosion_grow_def Let_def EXPLOSION_GROWTH_RATE_def min_def)
  finally show ?case .
qed

lemma explosion_after_Suc:
  "explosion_after (Suc n) e = fst (explosion_update (explosion_after n e))"
  by (simp add: explosion_after_def)

lemma fire_many_ammo:
  "b_active b \<Longrightarrow> int (length ts) \<le> ammo b \<Longrightarrow>
   ammo (snd (fire_many b ts)) = ammo b - int (length ts) \<and>
   list_all (\<lambda>res. res \<noteq> None) (fst (fire_many b ts))"
proof (induction ts arbitrary: b)
  case Nil
  then show ?case by simp
next
  case (Cons t ts)
  from Cons.prems have pos: "0 < ammo b" by simp
  with Cons.prems have f: "fire b (fst t) (snd t) =
    (Some (PlayerMissile (b_x b) (b_y b) (fst t) (snd t)), b\<lparr>ammo := ammo b - 1\<rparr>)"
    by (simp add: fire_def)
  have "b_active (b\<lparr>ammo := ammo b - 1\<rparr>)" "int (length ts) \<le> ammo (b\<lparr>ammo := ammo b - 1\<rparr>)"
    using Cons.prems by simp_all
  from Cons.IH [OF this] show ?case
    by (simp add: f)
qed

lemma fire_many_nonneg: "0 \<le> ammo b \<Longrightarrow> 0 \<le> ammo (snd (fire_many b ts))"
proof (induction ts arbitrary: b)
  case Nil
  then show ?case by simp
next
  case (Cons t ts)
  have "0 \<le> ammo (snd (fire b (fst t) (snd t)))"
    using Cons.prems by (simp add: fire_def)
  from Cons.IH [OF this] show ?case
    by (auto split: prod.splits)
qed

lemma explosion_loop_after:
  "explosion_loop [explosion_after n (Explosion x y)] =
     (if Suc n < 45 then [explosion_after (Suc n) (Explosion x y)] else [])"
  by (auto simp add: explosion_after_fresh explosion_update_def explosion_grow_def Let_def
        EXPLOSION_GROWTH_RATE_def min_def)

lemma explosion_loop_fresh: "explosion_loop [Explosion x y] = [explosion_after 1 (Explosion x y)]"
  using explosion_loop_after [of 0 x y] by (simp add: explosion_after_def)

subsection \<open>The concrete states, evaluated\<close>

lemma sqrt_25: "sqrt 25 = 5"
proof -
  have "sqrt ((5::real)\<^sup>2) = 5" by simp
  then show ?thesis by simp
qed

lemma Game_init_eq:
  "Game_init =
     \<lparr> running = True, game_over = False, score = 0, level = 1,
       enemy_spawn_timer = 0, enemy_spawn_rate = 60, starting_ammo = 10,
       missiles_spawned_this_level = 0, enemy_missile_color = RED,
       flash_timer = 0, flash_color = WHITE,
       bases = [\<lparr> b_x = 100, b_y = 560, side = ''left'', b_active = True, ammo = 10 \<rparr>,
                \<lparr> b_x = 400, b_y = 560, side = ''center'', b_active = True, ammo = 10 \<rparr>,
                \<lparr> b_x = 700, b_y = 560, side = ''right'', b_active = True, ammo = 10 \<rparr>],
       cities = [\<lparr> c_x = 200, c_y = 565, c_active = True, c_color = BLUE \<rparr>,
                 \<lparr> c_x = 250, c_y = 565, c_active = True, c_color = BLUE \<rparr>,
                 \<lparr> c_x = 300, c_y = 565, c_active = True, c_color = BLUE \<rparr>,
                 \<lparr> c_x = 500, c_y = 565, c_active = True, c_color = BLUE \<rparr>,
                 \<lparr> c_x = 550, c_y = 565, c_active = True, c_color = BLUE \<rparr>,
                 \<lparr> c_x = 600, c_y = 565, c_active = True, c_color = BLUE \<rparr>],
       player_missiles = [], enemy_missiles = [], explosions = [],
       missiles_per_level = 30 \<rparr>"
  by (simp add: Game_init_def setup_game_def MissileBase_def City_def SCREEN_WIDTH_def
        SCREEN_HEIGHT_def)

lemma falling_update: "missile_update (falling x ty n) = falling x ty (Suc n)"
  by (simp add: missile_update_def falling_def algebra_simps)

lemma falling_pos: "m_x (falling x ty n) = x" "m_y (falling x ty n) = 3 / 2 * real n"
  by (simp_all add: falling_def ENEMY_MISSILE_SPEED_def)

lemma resolve_falling:
  "\<not> list_ex (\<lambda>e. collides_with e x (3 / 2 * (real n + 1))) (explosions g) \<Longrightarrow>
   resolve_threat (falling x ty n) g =
     (if 3 / 2 * (real n + 1) \<ge> 550 then (None, ground_impact x g)
      else (Some (falling x ty (Suc n)), g))"
  by (simp add: resolve_threat_def falling_update falling_pos destroyed_by_iff Let_def
        SCREEN_HEIGHT_def add.commute)

lemma last_tick_entities:
  "entities_phase rand0 last_tick_state =
     last_tick_state\<lparr> enemy_spawn_timer := 18, score := 750, enemy_missiles := [],
                      explosions := [explosion_after 36 (Explosion 300 300)] \<rparr>"
  by (simp add: entities_phase_def flash_phase_def spawn_phase_def player_phase_def
        enemy_phase_def explosion_phase_def last_tick_state_def Game_init_eq
        resolve_threat_def missile_update_def falling_def destroyed_by_iff collides_with_iff
        explosion_after_fresh explosion_update_def explosion_grow_def Let_def
        ENEMY_MISSILE_SPEED_def SCREEN_HEIGHT_def power2_eq_square)

lemma last_tick_playing: "\<not> game_over last_tick_state"
  by (simp add: last_tick_state_def Game_init_eq)

lemma last_tick_inv: "game_inv last_tick_state"
  by (simp add: game_inv_def layout_def last_tick_state_def Game_init_eq)

lemma last_tick_cond: "level_complete_cond (entities_phase rand0 last_tick_state)"
  unfolding last_tick_entities
  by (simp add: level_complete_cond_def last_tick_state_def Game_init_eq)

lemma last_city_enemy:
  "enemy_phase last_city_state =
     last_city_state\<lparr> cities := map (\<lambda>c. c\<lparr>c_active := False\<rparr>) (cities Game_init),
                      enemy_missiles :=
                        [falling 100 560 307, falling 100 560 247, falling 100 560 187,
                         falling 100 560 127, falling 100 560 67, falling 100 560 7],
                      explosions := [Explosion 600 565] \<rparr>"
  by (simp add: enemy_phase_def last_city_state_def Game_init_eq resolve_falling
        ground_impact_def Let_def collides_with_iff Explosion_def power2_eq_square)

lemma last_city_entities:
  "entities_phase rand0 last_city_state =
     last_city_state\<lparr> enemy_spawn_timer := 6,
                      cities := map (\<lambda>c. c\<lparr>c_active := False\<rparr>) (cities Game_init),
                      enemy_missiles :=
                        [falling 100 560 307, falling 100 560 247, falling 100 560 187,
                         falling 100 560 127, falling 100 560 67, falling 100 560 7],
                      explosions := [explosion_after 1 (Explosion 600 565)] \<rparr>"
proof -
  have 1: "player_phase (spawn_phase rand0 (flash_phase last_city_state)) =
           last_city_state\<lparr>enemy_spawn_timer := 6\<rparr>"
    by (simp add: flash_phase_def spawn_phase_def player_phase_def last_city_state_def
          Game_init_eq Let_def)
  have 2: "enemy_phase (last_city_state\<lparr>enemy_spawn_timer := 6\<rparr>) =
           (enemy_phase last_city_state)\<lparr>enemy_spawn_timer := 6\<rparr>"
    by (simp add: enemy_phase_def last_city_state_def Game_init_eq resolve_falling
        ground_impact_def Let_def collides_with_iff Explosion_def power2_eq_square)
  show ?thesis
    unfolding entities_phase_def 1 2 last_city_enemy
    by (simp add: explosion_phase_def explosion_loop_fresh del: explosion_loop.simps)
qed

lemma last_city_playing: "\<not> game_over last_city_state"
  by (simp add: last_city_state_def Game_init_eq)

lemma last_city_inv: "game_inv last_city_state"
  by (simp add: game_inv_def layout_def last_city_state_def Game_init_eq)

lemma game_over_state_eq:
  "game_over_state =
     last_city_state\<lparr> game_over := True, enemy_spawn_timer := 6,
                      cities := map (\<lambda>c. c\<lparr>c_active := False\<rparr>) (cities Game_init),
                      enemy_missiles :=
                        [falling 100 560 307, falling 100 560 247, falling 100 560 187,
                         falling 100 560 127, falling 100 560 67, falling 100 560 7],
                      explosions := [explosion_after 1 (Explosion 600 565)] \<rparr>"
  unfolding game_over_state_def update_playing [OF last_city_playing] last_city_entities
  by (simp add: game_over_check_eq level_check_def level_complete_cond_def last_city_state_def
        Game_init_eq)

lemma game_over_state_over: "game_over game_over_state"
  unfolding game_over_state_eq by simp

lemma game_over_state_inv: "game_inv game_over_state"
  unfolding game_over_state_def by (rule inv_update [OF last_city_inv])

lemma restart_game_over_state:
  "restart game_over_state = Game_init\<lparr>enemy_spawn_timer := 6, missiles_spawned_this_level := 12\<rparr>"
  unfolding game_over_state_eq
  by (simp add: restart_def setup_game_def last_city_state_def Game_init_eq MissileBase_def
        City_def SCREEN_WIDTH_def SCREEN_HEIGHT_def)

lemma restart_frame:
  "enemy_spawn_rate (restart g) = enemy_spawn_rate g \<and>
   enemy_spawn_timer (restart g) = enemy_spawn_timer g \<and>
   missiles_spawned_this_level (restart g) = missiles_spawned_this_level g \<and>
   missiles_per_level (restart g) = missiles_per_level g"
  by (simp add: restart_def setup_game_frame)

subsection \<open>The run to the game over\<close>

lemma explosion_loop_cons:
  "explosion_loop (explosion_after n (Explosion x y) # es) =
     (if Suc n < 45 then explosion_after (Suc n) (Explosion x y) # explosion_loop es
      else explosion_loop es)"
  by (auto simp add: explosion_after_fresh explosion_update_def explosion_grow_def Let_def
        EXPLOSION_GROWTH_RATE_def min_def)

lemma explosion_loop_expl:
  "explosion_loop (map (expl k) (filter (alive k) el)) =
   map (expl (Suc k)) (filter (alive (Suc k)) el)"
proof (induction el)
  case Nil
  show ?case by simp
next
  case (Cons q el)
  obtain j x y where q: "q = (j, x, y)" by (cases q)
  show ?case
    using Cons.IH
    by (simp add: q expl_def alive_def explosion_loop_cons del: explosion_loop.simps(2))
qed

lemma enemy_loop_falling:
  assumes "\<forall>p \<in> set l. 3 / 2 * (real (snd (snd p) + k) + 1) < 550"
    and "\<forall>p \<in> set l. \<forall>e \<in> set (explosions g).
           \<not> collides_with e (fst p) (3 / 2 * (real (snd (snd p) + k) + 1))"
  shows "enemy_loop (map (fall k) l) kept g = g\<lparr>enemy_missiles := kept @ map (fall (Suc k)) l\<rparr>"
  using assms
proof (induction l arbitrary: kept)
  case Nil
  show ?case by simp
next
  case (Cons p l)
  obtain x ty n where p: "p = (x, ty, n)" by (cases p) auto
  from Cons.prems have a: "3 / 2 * (real (n + k) + 1) < 550"
    and b: "\<not> list_ex (\<lambda>e. collides_with e x (3 / 2 * (real (n + k) + 1))) (explosions g)"
    by (auto simp: p list_ex_iff)
  have r: "resolve_threat (fall k p) g = (Some (fall (Suc k) p), g)"
    using resolve_falling [OF b, of ty] a by (simp add: p fall_def)
  have "enemy_loop (map (fall k) l) (kept @ [fall (Suc k) p]) g =
        g\<lparr>enemy_missiles := (kept @ [fall (Suc k) p]) @ map (fall (Suc k)) l\<rparr>"
    by (rule Cons.IH) (use Cons.prems in auto)
  then show ?case
    by (simp add: r)
qed


lemma quiet_tick:
  assumes nospawn: "t + int k + 1 < 60"
    and nolevel: "l \<noteq> [] \<or> s < 30"
    and city: "list_ex c_active (map2 (\<lambda>c a. c\<lparr>c_active := a\<rparr>) (cities Game_init) act)"
    and air: "\<forall>p \<in> set l. 3 / 2 * (real (snd (snd p) + k) + 1) < 550"
    and clear: "\<forall>p \<in> set l. \<forall>q \<in> set (filter (alive k) el).
           \<not> collides_with (expl k q) (fst p) (3 / 2 * (real (snd (snd p) + k) + 1))"
  shows "update r (scen (t + int k) s act (map (fall k) l) (map (expl k) (filter (alive k) el))) =
         scen (t + int (Suc k)) s act (map (fall (Suc k)) l)
           (map (expl (Suc k)) (filter (alive (Suc k)) el))"
proof -
  define g1 where "g1 = scen (t + int k + 1) s act (map (fall k) l) (map (expl k) (filter (alive k) el))"
  have e1: "explosions g1 = map (expl k) (filter (alive k) el)"
    by (simp add: g1_def scen_def)
  have 1: "player_phase (spawn_phase r (flash_phase
             (scen (t + int k) s act (map (fall k) l) (map (expl k) (filter (alive k) el))))) = g1"
    using nospawn
    by (simp add: g1_def scen_def flash_phase_def spawn_phase_def player_phase_def Game_init_eq Let_def)
  have 2: "enemy_phase g1 = g1\<lparr>enemy_missiles := map (fall (Suc k)) l\<rparr>"
  proof -
    have "enemy_missiles g1 = map (fall k) l"
      by (simp add: g1_def scen_def)
    moreover have "enemy_loop (map (fall k) l) [] g1 = g1\<lparr>enemy_missiles := [] @ map (fall (Suc k)) l\<rparr>"
      by (rule enemy_loop_falling) (use air clear in \<open>auto simp: e1\<close>)
    ultimately show ?thesis by (simp add: enemy_phase_def)
  qed
  have 3: "explosion_phase (g1\<lparr>enemy_missiles := map (fall (Suc k)) l\<rparr>) =
           scen (t + int (Suc k)) s act (map (fall (Suc k)) l)
             (map (expl (Suc k)) (filter (alive (Suc k)) el))"
    by (simp add: explosion_phase_def e1 explosion_loop_expl g1_def scen_def add.commute)
  have ent: "entities_phase r (scen (t + int k) s act (map (fall k) l) (map (expl k) (filter (alive k) el))) =
             scen (t + int (Suc k)) s act (map (fall (Suc k)) l)
               (map (expl (Suc k)) (filter (alive (Suc k)) el))"
    unfolding entities_phase_def 1 2 3 ..
  have ng: "\<not> game_over (scen (t + int k) s act (map (fall k) l) (map (expl k) (filter (alive k) el)))"
    by (simp add: scen_def Game_init_eq)
  have nc: "\<not> list_all (\<lambda>c. \<not> c_active c)
              (cities (scen (t + int (Suc k)) s act (map (fall (Suc k)) l)
                 (map (expl (Suc k)) (filter (alive (Suc k)) el))))"
    using city by (simp add: scen_def list_all_iff list_ex_iff)
  have nl: "\<not> level_complete_cond (scen (t + int (Suc k)) s act (map (fall (Suc k)) l)
                 (map (expl (Suc k)) (filter (alive (Suc k)) el)))"
    using nolevel by (auto simp add: level_complete_cond_def scen_def Game_init_eq)
  show ?thesis
    unfolding update_playing [OF ng] ent
    using nc nl by (simp add: game_over_check_def level_check_def)
qed


lemma far_no_collision:
  assumes "y' \<le> yK" "yK \<le> ey" "(x - ex)\<^sup>2 + (ey - yK)\<^sup>2 > 3600"
  shows "\<not> collides_with (explosion_after m (Explosion ex ey)) x y'"
proof -
  have "0 \<le> ey - yK" "ey - yK \<le> ey - y'"
    using assms by simp_all
  then have "(ey - yK)\<^sup>2 \<le> (ey - y')\<^sup>2"
    by (rule power_mono [OF _ _, of "ey - yK" "ey - y'" 2, rotated])
  also have "(ey - y')\<^sup>2 = (y' - ey)\<^sup>2"
    by (simp add: power2_commute)
  finally have d: "(x - ex)\<^sup>2 + (y' - ey)\<^sup>2 > 3600"
    using assms(3) by simp
  have "0 \<le> real_of_int (min (2 * int m) 60)" "real_of_int (min (2 * int m) 60) \<le> 60"
    by simp_all
  then have "(real_of_int (min (2 * int m) 60))\<^sup>2 \<le> 60\<^sup>2"
    by (rule power_mono [rotated])
  with d show ?thesis
    by (simp add: collides_with_iff explosion_after_fresh)
qed

lemma quiet_stretch:
  assumes timer: "t + int K < 60"
    and nolevel: "l \<noteq> [] \<or> s < 30"
    and city: "list_ex c_active (map2 (\<lambda>c a. c\<lparr>c_active := a\<rparr>) (cities Game_init) act)"
    and air: "\<forall>p \<in> set l. 3 / 2 * real (snd (snd p) + K) < 550"
    and far: "\<forall>p \<in> set l. \<forall>q \<in> set el.
           3 / 2 * real (snd (snd p) + K) \<le> snd (snd q) \<and>
           (fst p - fst (snd q))\<^sup>2 + (snd (snd q) - 3 / 2 * real (snd (snd p) + K))\<^sup>2 > 3600"
  shows "(update r ^^ K) (scen t s act (map (fall 0) l) (map (expl 0) (filter (alive 0) el))) =
         scen (t + int K) s act (map (fall K) l) (map (expl K) (filter (alive K) el))"
proof -
  have "k \<le> K \<Longrightarrow>
        (update r ^^ k) (scen t s act (map (fall 0) l) (map (expl 0) (filter (alive 0) el))) =
         scen (t + int k) s act (map (fall k) l) (map (expl k) (filter (alive k) el))" for k
  proof (induction k)
    case 0
    show ?case by simp
  next
    case (Suc k)
    then have kK: "Suc k \<le> K" and
      IH: "(update r ^^ k) (scen t s act (map (fall 0) l) (map (expl 0) (filter (alive 0) el))) =
         scen (t + int k) s act (map (fall k) l) (map (expl k) (filter (alive k) el))"
      by simp_all
    have ns: "t + int k + 1 < 60"
      using timer kK by simp
    have le: "3 / 2 * (real (snd (snd p) + k) + 1) \<le> 3 / 2 * real (snd (snd p) + K)" for p
      using kK by simp
    have a: "\<forall>p \<in> set l. 3 / 2 * (real (snd (snd p) + k) + 1) < 550"
    proof
      fix p assume "p \<in> set l"
      with air have "3 / 2 * real (snd (snd p) + K) < 550" by blast
      with le [of p] show "3 / 2 * (real (snd (snd p) + k) + 1) < 550" by linarith
    qed
    have c: "\<forall>p \<in> set l. \<forall>q \<in> set (filter (alive k) el).
           \<not> collides_with (expl k q) (fst p) (3 / 2 * (real (snd (snd p) + k) + 1))"
    proof (intro ballI)
      fix p q assume p: "p \<in> set l" and "q \<in> set (filter (alive k) el)"
      then have q: "q \<in> set el" by simp
      obtain j ex ey where qq: "q = (j, ex, ey)" by (cases q) auto
      from far p q have "3 / 2 * real (snd (snd p) + K) \<le> snd (snd q) \<and>
           (fst p - fst (snd q))\<^sup>2 + (snd (snd q) - 3 / 2 * real (snd (snd p) + K))\<^sup>2 > 3600"
        by blast
      then have f: "3 / 2 * real (snd (snd p) + K) \<le> ey"
        "(fst p - ex)\<^sup>2 + (ey - 3 / 2 * real (snd (snd p) + K))\<^sup>2 > 3600"
        unfolding qq snd_conv fst_conv by blast+
      from far_no_collision [OF le [of p] f]
      show "\<not> collides_with (expl k q) (fst p) (3 / 2 * (real (snd (snd p) + k) + 1))"
        by (simp add: expl_def qq)
    qed
    have "(update r ^^ Suc k) (scen t s act (map (fall 0) l) (map (expl 0) (filter (alive 0) el))) =
          update r (scen (t + int k) s act (map (fall k) l) (map (expl k) (filter (alive k) el)))"
      by (simp add: IH)
    also have "\<dots> = scen (t + int (Suc k)) s act (map (fall (Suc k)) l)
           (map (expl (Suc k)) (filter (alive (Suc k)) el))"
      by (rule quiet_tick [OF ns nolevel city a c])
    finally show ?case .
  qed
  then show ?thesis by simp
qed


lemma collides_after:
  "collides_with (explosion_after n (Explosion ex ey)) x y =
     ((x - ex) * (x - ex) + (y - ey) * (y - ey)
        \<le> real_of_int (min (2 * int n) 60) * real_of_int (min (2 * int n) 60))"
  by (simp add: collides_with_iff explosion_after_fresh power2_eq_square)

lemma collides_fresh:
  "collides_with (Explosion ex ey) x y = ((x - ex) * (x - ex) + (y - ey) * (y - ey) \<le> 0)"
  by (simp add: collides_with_iff Explosion_def power2_eq_square)

lemma explosion_loop_cons0:
  "explosion_loop (Explosion x y # es) = explosion_after (Suc 0) (Explosion x y) # explosion_loop es"
  using explosion_loop_cons [of 0 x y es] by (simp add: explosion_after_def)

lemma EnemyMissile_falling: "0 < ty \<Longrightarrow> EnemyMissile x x ty RED = falling x ty 0"
  by (simp add: EnemyMissile_def Missile_def compute_velocity_def falling_def Let_def)

lemma reach_funpow: "reachable g \<Longrightarrow> rand_ok r \<Longrightarrow> reachable ((update r ^^ n) g)"
  by (induction n) (simp_all add: reach_update)

lemma rand0_ok: "rand_ok rand0"
  by (simp add: rand_ok_def rand0_def color_ok_def SCREEN_WIDTH_def)

lemma spawn_rand_ok: "50 \<le> x \<Longrightarrow> x \<le> 750 \<Longrightarrow> rand_ok (spawn_rand x i)"
  by (simp add: rand_ok_def spawn_rand_def rand0_def color_ok_def SCREEN_WIDTH_def)

lemmas sim =
  scen_def spawn_rand_def rand0_def update_def entities_phase_def flash_phase_def spawn_phase_def
  player_phase_def enemy_phase_def explosion_phase_def game_over_check_def level_check_def
  level_complete_cond_def Game_init_eq Let_def spawn_enemy_missile_def possible_targets_def
  EnemyMissile_falling resolve_falling ground_impact_def collides_after collides_fresh
  explosion_loop_cons explosion_loop_cons0

lemma scenario_59:
  assumes "reachable
     (scen 0 0 [True, True, True, True, True, True]
      []
      [])"
  shows "reachable
     (scen 59 0 [True, True, True, True, True, True]
      []
      [])"
proof -
  define l :: "(real \<times> real \<times> nat) list" where
    "l = []"
  define el :: "(nat \<times> real \<times> real) list" where
    "el = []"
  have "(update rand0 ^^ 59)
          (scen 0 0 [True, True, True, True, True, True]
            (map (fall 0) l) (map (expl 0) (filter (alive 0) el))) =
        scen (0 + int 59) 0 [True, True, True, True, True, True]
            (map (fall 59) l) (map (expl 59) (filter (alive 59) el))"
    by (rule quiet_stretch) (simp_all add: l_def el_def Game_init_eq power2_eq_square)
  with reach_funpow [OF assms rand0_ok, of 59] show ?thesis
    by (simp add: l_def el_def fall_def expl_def alive_def)
qed

lemma scenario_60:
  assumes "reachable
     (scen 59 0 [True, True, True, True, True, True]
      []
      [])"
  shows "reachable
     (scen 0 1 [True, True, True, True, True, True]
      [falling 200 565 1]
      [])"
proof -
  have "update (spawn_rand 200 0)
     (scen 59 0 [True, True, True, True, True, True]
      []
      []) =
   scen 0 1 [True, True, True, True, True, True]
      [falling 200 565 1]
      []"
    by (simp add: sim del: explosion_loop.simps(2))
  with reach_update [OF assms, of "spawn_rand 200 0"] show ?thesis
    by (simp add: spawn_rand_ok)
qed

lemma scenario_119:
  assumes "reachable
     (scen 0 1 [True, True, True, True, True, True]
      [falling 200 565 1]
      [])"
  shows "reachable
     (scen 59 1 [True, True, True, True, True, True]
      [falling 200 565 60]
      [])"
proof -
  define l :: "(real \<times> real \<times> nat) list" where
    "l = [(200, 565, 1)]"
  define el :: "(nat \<times> real \<times> real) list" where
    "el = []"
  have "(update rand0 ^^ 59)
          (scen 0 1 [True, True, True, True, True, True]
            (map (fall 0) l) (map (expl 0) (filter (alive 0) el))) =
        scen (0 + int 59) 1 [True, True, True, True, True, True]
            (map (fall 59) l) (map (expl 59) (filter (alive 59) el))"
    by (rule quiet_stretch) (simp_all add: l_def el_def Game_init_eq power2_eq_square)
  with reach_funpow [OF assms rand0_ok, of 59] show ?thesis
    by (simp add: l_def el_def fall_def expl_def alive_def)
qed

lemma scenario_120:
  assumes "reachable
     (scen 59 1 [True, True, True, True, True, True]
      [falling 200 565 60]
      [])"
  shows "reachable
     (scen 0 2 [True, True, True, True, True, True]
      [falling 200 565 61, falling 250 565 1]
      [])"
proof -
  have "update (spawn_rand 250 1)
     (scen 59 1 [True, True, True, True, True, True]
      [falling 200 565 60]
      []) =
   scen 0 2 [True, True, True, True, True, True]
      [falling 200 565 61, falling 250 565 1]
      []"
    by (simp add: sim del: explosion_loop.simps(2))
  with reach_update [OF assms, of "spawn_rand 250 1"] show ?thesis
    by (simp add: spawn_rand_ok)
qed

lemma scenario_179:
  assumes "reachable
     (scen 0 2 [True, True, True, True, True, True]
      [falling 200 565 61, falling 250 565 1]
      [])"
  shows "reachable
     (scen 59 2 [True, True, True, True, True, True]
      [falling 200 565 120, falling 250 565 60]
      [])"
proof -
  define l :: "(real \<times> real \<times> nat) list" where
    "l = [(200, 565, 61), (250, 565, 1)]"
  define el :: "(nat \<times> real \<times> real) list" where
    "el = []"
  have "(update rand0 ^^ 59)
          (scen 0 2 [True, True, True, True, True, True]
            (map (fall 0) l) (map (expl 0) (filter (alive 0) el))) =
        scen (0 + int 59) 2 [True, True, True, True, True, True]
            (map (fall 59) l) (map (expl 59) (filter (alive 59) el))"
    by (rule quiet_stretch) (simp_all add: l_def el_def Game_init_eq power2_eq_square)
  with reach_funpow [OF assms rand0_ok, of 59] show ?thesis
    by (simp add: l_def el_def fall_def expl_def alive_def)
qed

lemma scenario_180:
  assumes "reachable
     (scen 59 2 [True, True, True, True, True, True]
      [falling 200 565 120, falling 250 565 60]
      [])"
  shows "reachable
     (scen 0 3 [True, True, True, True, True, True]
      [falling 200 565 121, falling 250 565 61, falling 300 565 1]
      [])"
proof -
  have "update (spawn_rand 300 2)
     (scen 59 2 [True, True, True, True, True, True]
      [falling 200 565 120, falling 250 565 60]
      []) =
   scen 0 3 [True, True, True, True, True, True]
      [falling 200 565 121, falling 250 565 61, falling 300 565 1]
      []"
    by (simp add: sim del: explosion_loop.simps(2))
  with reach_update [OF assms, of "spawn_rand 300 2"] show ?thesis
    by (simp add: spawn_rand_ok)
qed

lemma scenario_239:
  assumes "reachable
     (scen 0 3 [True, True, True, True, True, True]
      [falling 200 565 121, falling 250 565 61, falling 300 565 1]
      [])"
  shows "reachable
     (scen 59 3 [True, True, True, True, True, True]
      [falling 200 565 180, falling 250 565 120, falling 300 565 60]
      [])"
proof -
  define l :: "(real \<times> real \<times> nat) list" where
    "l = [(200, 565, 121), (250, 565, 61), (300, 565, 1)]"
  define el :: "(nat \<times> real \<times> real) list" where
    "el = []"
  have "(update rand0 ^^ 59)
          (scen 0 3 [True, True, True, True, True, True]
            (map (fall 0) l) (map (expl 0) (filter (alive 0) el))) =
        scen (0 + int 59) 3 [True, True, True, True, True, True]
            (map (fall 59) l) (map (expl 59) (filter (alive 59) el))"
    by (rule quiet_stretch) (simp_all add: l_def el_def Game_init_eq power2_eq_square)
  with reach_funpow [OF assms rand0_ok, of 59] show ?thesis
    by (simp add: l_def el_def fall_def expl_def alive_def)
qed

lemma scenario_240:
  assumes "reachable
     (scen 59 3 [True, True, True, True, True, True]
      [falling 200 565 180, falling 250 565 120, falling 300 565 60]
      [])"
  shows "reachable
     (scen 0 4 [True, True, True, True, True, True]
      [falling 200 565 181, falling 250 565 121, falling 300 565 61,
       falling 500 565 1]
      [])"
proof -
  have "update (spawn_rand 500 3)
     (scen 59 3 [True, True, True, True, True, True]
      [falling 200 565 180, falling 250 565 120, falling 300 565 60]
      []) =
   scen 0 4 [True, True, True, True, True, True]
      [falling 200 565 181, falling 250 565 121, falling 300 565 61,
       falling 500 565 1]
      []"
    by (simp add: sim del: explosion_loop.simps(2))
  with reach_update [OF assms, of "spawn_rand 500 3"] show ?thesis
    by (simp add: spawn_rand_ok)
qed

lemma scenario_299:
  assumes "reachable
     (scen 0 4 [True, True, True, True, True, True]
      [falling 200 565 181, falling 250 565 121, falling 300 565 61,
       falling 500 565 1]
      [])"
  shows "reachable
     (scen 59 4 [True, True, True, True, True, True]
      [falling 200 565 240, falling 250 565 180, falling 300 565 120,
       falling 500 565 60]
      [])"
proof -
  define l :: "(real \<times> real \<times> nat) list" where
    "l = [(200, 565, 181), (250, 565, 121), (300, 565, 61),
           (500, 565, 1)]"
  define el :: "(nat \<times> real \<times> real) list" where
    "el = []"
  have "(update rand0 ^^ 59)
          (scen 0 4 [True, True, True, True, True, True]
            (map (fall 0) l) (map (expl 0) (filter (alive 0) el))) =
        scen (0 + int 59) 4 [True, True, True, True, True, True]
            (map (fall 59) l) (map (expl 59) (filter (alive 59) el))"
    by (rule quiet_stretch) (simp_all add: l_def el_def Game_init_eq power2_eq_square)
  with reach_funpow [OF assms rand0_ok, of 59] show ?thesis
    by (simp add: l_def el_def fall_def expl_def alive_def)
qed

lemma scenario_300:
  assumes "reachable
     (scen 59 4 [True, True, True, True, True, True]
      [falling 200 565 240, falling 250 565 180, falling 300 565 120,
       falling 500 565 60]
      [])"
  shows "reachable
     (scen 0 5 [True, True, True, True, True, True]
      [falling 200 565 241, falling 250 565 181, falling 300 565 121,
       falling 500 565 61, falling 550 565 1]
      [])"
proof -
  have "update (spawn_rand 550 4)
     (scen 59 4 [True, True, True, True, True, True]
      [falling 200 565 240, falling 250 565 180, falling 300 565 120,
       falling 500 565 60]
      []) =
   scen 0 5 [True, True, True, True, True, True]
      [falling 200 565 241, falling 250 565 181, falling 300 565 121,
       falling 500 565 61, falling 550 565 1]
      []"
    by (simp add: sim del: explosion_loop.simps(2))
  with reach_update [OF assms, of "spawn_rand 550 4"] show ?thesis
    by (simp add: spawn_rand_ok)
qed

lemma scenario_359:
  assumes "reachable
     (scen 0 5 [True, True, True, True, True, True]
      [falling 200 565 241, falling 250 565 181, falling 300 565 121,
       falling 500 565 61, falling 550 565 1]
      [])"
  shows "reachable
     (scen 59 5 [True, True, True, True, True, True]
      [falling 200 565 300, falling 250 565 240, falling 300 565 180,
       falling 500 565 120, falling 550 565 60]
      [])"
proof -
  define l :: "(real \<times> real \<times> nat) list" where
    "l = [(200, 565, 241), (250, 565, 181), (300, 565, 121),
           (500, 565, 61), (550, 565, 1)]"
  define el :: "(nat \<times> real \<times> real) list" where
    "el = []"
  have "(update rand0 ^^ 59)
          (scen 0 5 [True, True, True, True, True, True]
            (map (fall 0) l) (map (expl 0) (filter (alive 0) el))) =
        scen (0 + int 59) 5 [True, True, True, True, True, True]
            (map (fall 59) l) (map (expl 59) (filter (alive 59) el))"
    by (rule quiet_stretch) (simp_all add: l_def el_def Game_init_eq power2_eq_square)
  with reach_funpow [OF assms rand0_ok, of 59] show ?thesis
    by (simp add: l_def el_def fall_def expl_def alive_def)
qed

lemma scenario_360:
  assumes "reachable
     (scen 59 5 [True, True, True, True, True, True]
      [falling 200 565 300, falling 250 565 240, falling 300 565 180,
       falling 500 565 120, falling 550 565 60]
      [])"
  shows "reachable
     (scen 0 6 [True, True, True, True, True, True]
      [falling 200 565 301, falling 250 565 241, falling 300 565 181,
       falling 500 565 121, falling 550 565 61, falling 600 565 1]
      [])"
proof -
  have "update (spawn_rand 600 5)
     (scen 59 5 [True, True, True, True, True, True]
      [falling 200 565 300, falling 250 565 240, falling 300 565 180,
       falling 500 565 120, falling 550 565 60]
      []) =
   scen 0 6 [True, True, True, True, True, True]
      [falling 200 565 301, falling 250 565 241, falling 300 565 181,
       falling 500 565 121, falling 550 565 61, falling 600 565 1]
      []"
    by (simp add: sim del: explosion_loop.simps(2))
  with reach_update [OF assms, of "spawn_rand 600 5"] show ?thesis
    by (simp add: spawn_rand_ok)
qed

lemma scenario_419:
  assumes "reachable
     (scen 0 6 [True, True, True, True, True, True]
      [falling 200 565 301, falling 250 565 241, falling 300 565 181,
       falling 500 565 121, falling 550 565 61, falling 600 565 1]
      [])"
  shows "reachable
     (scen 59 6 [True, True, True, True, True, True]
      [falling 200 565 360, falling 250 565 300, falling 300 565 240,
       falling 500 565 180, falling 550 565 120, falling 600 565 60]
      [])"
proof -
  define l :: "(real \<times> real \<times> nat) list" where
    "l = [(200, 565, 301), (250, 565, 241), (300, 565, 181),
           (500, 565, 121), (550, 565, 61), (600, 565, 1)]"
  define el :: "(nat \<times> real \<times> real) list" where
    "el = []"
  have "(update rand0 ^^ 59)
          (scen 0 6 [True, True, True, True, True, True]
            (map (fall 0) l) (map (expl 0) (filter (alive 0) el))) =
        scen (0 + int 59) 6 [True, True, True, True, True, True]
            (map (fall 59) l) (map (expl 59) (filter (alive 59) el))"
    by (rule quiet_stretch) (simp_all add: l_def el_def Game_init_eq power2_eq_square)
  with reach_funpow [OF assms rand0_ok, of 59] show ?thesis
    by (simp add: l_def el_def fall_def expl_def alive_def)
qed

lemma scenario_420:
  assumes "reachable
     (scen 59 6 [True, True, True, True, True, True]
      [falling 200 565 360, falling 250 565 300, falling 300 565 240,
       falling 500 565 180, falling 550 565 120, falling 600 565 60]
      [])"
  shows "reachable
     (scen 0 7 [True, True, True, True, True, True]
      [falling 200 565 361, falling 250 565 301, falling 300 565 241,
       falling 500 565 181, falling 550 565 121, falling 600 565 61,
       falling 100 560 1]
      [])"
proof -
  have "update (spawn_rand 100 6)
     (scen 59 6 [True, True, True, True, True, True]
      [falling 200 565 360, falling 250 565 300, falling 300 565 240,
       falling 500 565 180, falling 550 565 120, falling 600 565 60]
      []) =
   scen 0 7 [True, True, True, True, True, True]
      [falling 200 565 361, falling 250 565 301, falling 300 565 241,
       falling 500 565 181, falling 550 565 121, falling 600 565 61,
       falling 100 560 1]
      []"
    by (simp add: sim del: explosion_loop.simps(2))
  with reach_update [OF assms, of "spawn_rand 100 6"] show ?thesis
    by (simp add: spawn_rand_ok)
qed

lemma scenario_425:
  assumes "reachable
     (scen 0 7 [True, True, True, True, True, True]
      [falling 200 565 361, falling 250 565 301, falling 300 565 241,
       falling 500 565 181, falling 550 565 121, falling 600 565 61,
       falling 100 560 1]
      [])"
  shows "reachable
     (scen 5 7 [True, True, True, True, True, True]
      [falling 200 565 366, falling 250 565 306, falling 300 565 246,
       falling 500 565 186, falling 550 565 126, falling 600 565 66,
       falling 100 560 6]
      [])"
proof -
  define l :: "(real \<times> real \<times> nat) list" where
    "l = [(200, 565, 361), (250, 565, 301), (300, 565, 241),
           (500, 565, 181), (550, 565, 121), (600, 565, 61),
           (100, 560, 1)]"
  define el :: "(nat \<times> real \<times> real) list" where
    "el = []"
  have "(update rand0 ^^ 5)
          (scen 0 7 [True, True, True, True, True, True]
            (map (fall 0) l) (map (expl 0) (filter (alive 0) el))) =
        scen (0 + int 5) 7 [True, True, True, True, True, True]
            (map (fall 5) l) (map (expl 5) (filter (alive 5) el))"
    by (rule quiet_stretch) (simp_all add: l_def el_def Game_init_eq power2_eq_square)
  with reach_funpow [OF assms rand0_ok, of 5] show ?thesis
    by (simp add: l_def el_def fall_def expl_def alive_def)
qed

lemma scenario_426:
  assumes "reachable
     (scen 5 7 [True, True, True, True, True, True]
      [falling 200 565 366, falling 250 565 306, falling 300 565 246,
       falling 500 565 186, falling 550 565 126, falling 600 565 66,
       falling 100 560 6]
      [])"
  shows "reachable
     (scen 6 7 [False, True, True, True, True, True]
      [falling 250 565 307, falling 300 565 247, falling 500 565 187,
       falling 550 565 127, falling 600 565 67, falling 100 560 7]
      [explosion_after 1 (Explosion 200 565)])"
proof -
  have "update (rand0)
     (scen 5 7 [True, True, True, True, True, True]
      [falling 200 565 366, falling 250 565 306, falling 300 565 246,
       falling 500 565 186, falling 550 565 126, falling 600 565 66,
       falling 100 560 6]
      []) =
   scen 6 7 [False, True, True, True, True, True]
      [falling 250 565 307, falling 300 565 247, falling 500 565 187,
       falling 550 565 127, falling 600 565 67, falling 100 560 7]
      [explosion_after 1 (Explosion 200 565)]"
    by (simp add: sim del: explosion_loop.simps(2))
  with reach_update [OF assms, of "rand0"] show ?thesis
    by (simp add: rand0_ok)
qed

lemma scenario_470:
  assumes "reachable
     (scen 6 7 [False, True, True, True, True, True]
      [falling 250 565 307, falling 300 565 247, falling 500 565 187,
       falling 550 565 127, falling 600 565 67, falling 100 560 7]
      [explosion_after 1 (Explosion 200 565)])"
  shows "reachable
     (scen 50 7 [False, True, True, True, True, True]
      [falling 250 565 351, falling 300 565 291, falling 500 565 231,
       falling 550 565 171, falling 600 565 111, falling 100 560 51]
      [])"
proof -
  define l :: "(real \<times> real \<times> nat) list" where
    "l = [(250, 565, 307), (300, 565, 247), (500, 565, 187),
           (550, 565, 127), (600, 565, 67), (100, 560, 7)]"
  define el :: "(nat \<times> real \<times> real) list" where
    "el = [(1, 200, 565)]"
  have "(update rand0 ^^ 44)
          (scen 6 7 [False, True, True, True, True, True]
            (map (fall 0) l) (map (expl 0) (filter (alive 0) el))) =
        scen (6 + int 44) 7 [False, True, True, True, True, True]
            (map (fall 44) l) (map (expl 44) (filter (alive 44) el))"
    by (rule quiet_stretch) (simp_all add: l_def el_def Game_init_eq power2_eq_square)
  with reach_funpow [OF assms rand0_ok, of 44] show ?thesis
    by (simp add: l_def el_def fall_def expl_def alive_def)
qed

lemma scenario_479:
  assumes "reachable
     (scen 50 7 [False, True, True, True, True, True]
      [falling 250 565 351, falling 300 565 291, falling 500 565 231,
       falling 550 565 171, falling 600 565 111, falling 100 560 51]
      [])"
  shows "reachable
     (scen 59 7 [False, True, True, True, True, True]
      [falling 250 565 360, falling 300 565 300, falling 500 565 240,
       falling 550 565 180, falling 600 565 120, falling 100 560 60]
      [])"
proof -
  define l :: "(real \<times> real \<times> nat) list" where
    "l = [(250, 565, 351), (300, 565, 291), (500, 565, 231),
           (550, 565, 171), (600, 565, 111), (100, 560, 51)]"
  define el :: "(nat \<times> real \<times> real) list" where
    "el = []"
  have "(update rand0 ^^ 9)
          (scen 50 7 [False, True, True, True, True, True]
            (map (fall 0) l) (map (expl 0) (filter (alive 0) el))) =
        scen (50 + int 9) 7 [False, True, True, True, True, True]
            (map (fall 9) l) (map (expl 9) (filter (alive 9) el))"
    by (rule quiet_stretch) (simp_all add: l_def el_def Game_init_eq power2_eq_square)
  with reach_funpow [OF assms rand0_ok, of 9] show ?thesis
    by (simp add: l_def el_def fall_def expl_def alive_def)
qed

lemma scenario_480:
  assumes "reachable
     (scen 59 7 [False, True, True, True, True, True]
      [falling 250 565 360, falling 300 565 300, falling 500 565 240,
       falling 550 565 180, falling 600 565 120, falling 100 560 60]
      [])"
  shows "reachable
     (scen 0 8 [False, True, True, True, True, True]
      [falling 250 565 361, falling 300 565 301, falling 500 565 241,
       falling 550 565 181, falling 600 565 121, falling 100 560 61,
       falling 100 560 1]
      [])"
proof -
  have "update (spawn_rand 100 5)
     (scen 59 7 [False, True, True, True, True, True]
      [falling 250 565 360, falling 300 565 300, falling 500 565 240,
       falling 550 565 180, falling 600 565 120, falling 100 560 60]
      []) =
   scen 0 8 [False, True, True, True, True, True]
      [falling 250 565 361, falling 300 565 301, falling 500 565 241,
       falling 550 565 181, falling 600 565 121, falling 100 560 61,
       falling 100 560 1]
      []"
    by (simp add: sim del: explosion_loop.simps(2))
  with reach_update [OF assms, of "spawn_rand 100 5"] show ?thesis
    by (simp add: spawn_rand_ok)
qed

lemma scenario_485:
  assumes "reachable
     (scen 0 8 [False, True, True, True, True, True]
      [falling 250 565 361, falling 300 565 301, falling 500 565 241,
       falling 550 565 181, falling 600 565 121, falling 100 560 61,
       falling 100 560 1]
      [])"
  shows "reachable
     (scen 5 8 [False, True, True, True, True, True]
      [falling 250 565 366, falling 300 565 306, falling 500 565 246,
       falling 550 565 186, falling 600 565 126, falling 100 560 66,
       falling 100 560 6]
      [])"
proof -
  define l :: "(real \<times> real \<times> nat) list" where
    "l = [(250, 565, 361), (300, 565, 301), (500, 565, 241),
           (550, 565, 181), (600, 565, 121), (100, 560, 61),
           (100, 560, 1)]"
  define el :: "(nat \<times> real \<times> real) list" where
    "el = []"
  have "(update rand0 ^^ 5)
          (scen 0 8 [False, True, True, True, True, True]
            (map (fall 0) l) (map (expl 0) (filter (alive 0) el))) =
        scen (0 + int 5) 8 [False, True, True, True, True, True]
            (map (fall 5) l) (map (expl 5) (filter (alive 5) el))"
    by (rule quiet_stretch) (simp_all add: l_def el_def Game_init_eq power2_eq_square)
  with reach_funpow [OF assms rand0_ok, of 5] show ?thesis
    by (simp add: l_def el_def fall_def expl_def alive_def)
qed

lemma scenario_486:
  assumes "reachable
     (scen 5 8 [False, True, True, True, True, True]
      [falling 250 565 366, falling 300 565 306, falling 500 565 246,
       falling 550 565 186, falling 600 565 126, falling 100 560 66,
       falling 100 560 6]
      [])"
  shows "reachable
     (scen 6 8 [False, False, True, True, True, True]
      [falling 300 565 307, falling 500 565 247, falling 550 565 187,
       falling 600 565 127, falling 100 560 67, falling 100 560 7]
      [explosion_after 1 (Explosion 250 565)])"
proof -
  have "update (rand0)
     (scen 5 8 [False, True, True, True, True, True]
      [falling 250 565 366, falling 300 565 306, falling 500 565 246,
       falling 550 565 186, falling 600 565 126, falling 100 560 66,
       falling 100 560 6]
      []) =
   scen 6 8 [False, False, True, True, True, True]
      [falling 300 565 307, falling 500 565 247, falling 550 565 187,
       falling 600 565 127, falling 100 560 67, falling 100 560 7]
      [explosion_after 1 (Explosion 250 565)]"
    by (simp add: sim del: explosion_loop.simps(2))
  with reach_update [OF assms, of "rand0"] show ?thesis
    by (simp add: rand0_ok)
qed

lemma scenario_530:
  assumes "reachable
     (scen 6 8 [False, False, True, True, True, True]
      [falling 300 565 307, falling 500 565 247, falling 550 565 187,
       falling 600 565 127, falling 100 560 67, falling 100 560 7]
      [explosion_after 1 (Explosion 250 565)])"
  shows "reachable
     (scen 50 8 [False, False, True, True, True, True]
      [falling 300 565 351, falling 500 565 291, falling 550 565 231,
       falling 600 565 171, falling 100 560 111, falling 100 560 51]
      [])"
proof -
  define l :: "(real \<times> real \<times> nat) list" where
    "l = [(300, 565, 307), (500, 565, 247), (550, 565, 187),
           (600, 565, 127), (100, 560, 67), (100, 560, 7)]"
  define el :: "(nat \<times> real \<times> real) list" where
    "el = [(1, 250, 565)]"
  have "(update rand0 ^^ 44)
          (scen 6 8 [False, False, True, True, True, True]
            (map (fall 0) l) (map (expl 0) (filter (alive 0) el))) =
        scen (6 + int 44) 8 [False, False, True, True, True, True]
            (map (fall 44) l) (map (expl 44) (filter (alive 44) el))"
    by (rule quiet_stretch) (simp_all add: l_def el_def Game_init_eq power2_eq_square)
  with reach_funpow [OF assms rand0_ok, of 44] show ?thesis
    by (simp add: l_def el_def fall_def expl_def alive_def)
qed

lemma scenario_539:
  assumes "reachable
     (scen 50 8 [False, False, True, True, True, True]
      [falling 300 565 351, falling 500 565 291, falling 550 565 231,
       falling 600 565 171, falling 100 560 111, falling 100 560 51]
      [])"
  shows "reachable
     (scen 59 8 [False, False, True, True, True, True]
      [falling 300 565 360, falling 500 565 300, falling 550 565 240,
       falling 600 565 180, falling 100 560 120, falling 100 560 60]
      [])"
proof -
  define l :: "(real \<times> real \<times> nat) list" where
    "l = [(300, 565, 351), (500, 565, 291), (550, 565, 231),
           (600, 565, 171), (100, 560, 111), (100, 560, 51)]"
  define el :: "(nat \<times> real \<times> real) list" where
    "el = []"
  have "(update rand0 ^^ 9)
          (scen 50 8 [False, False, True, True, True, True]
            (map (fall 0) l) (map (expl 0) (filter (alive 0) el))) =
        scen (50 + int 9) 8 [False, False, True, True, True, True]
            (map (fall 9) l) (map (expl 9) (filter (alive 9) el))"
    by (rule quiet_stretch) (simp_all add: l_def el_def Game_init_eq power2_eq_square)
  with reach_funpow [OF assms rand0_ok, of 9] show ?thesis
    by (simp add: l_def el_def fall_def expl_def alive_def)
qed

lemma scenario_540:
  assumes "reachable
     (scen 59 8 [False, False, True, True, True, True]
      [falling 300 565 360, falling 500 565 300, falling 550 565 240,
       falling 600 565 180, falling 100 560 120, falling 100 560 60]
      [])"
  shows "reachable
     (scen 0 9 [False, False, True, True, True, True]
      [falling 300 565 361, falling 500 565 301, falling 550 565 241,
       falling 600 565 181, falling 100 560 121, falling 100 560 61,
       falling 100 560 1]
      [])"
proof -
  have "update (spawn_rand 100 4)
     (scen 59 8 [False, False, True, True, True, True]
      [falling 300 565 360, falling 500 565 300, falling 550 565 240,
       falling 600 565 180, falling 100 560 120, falling 100 560 60]
      []) =
   scen 0 9 [False, False, True, True, True, True]
      [falling 300 565 361, falling 500 565 301, falling 550 565 241,
       falling 600 565 181, falling 100 560 121, falling 100 560 61,
       falling 100 560 1]
      []"
    by (simp add: sim del: explosion_loop.simps(2))
  with reach_update [OF assms, of "spawn_rand 100 4"] show ?thesis
    by (simp add: spawn_rand_ok)
qed

lemma scenario_545:
  assumes "reachable
     (scen 0 9 [False, False, True, True, True, True]
      [falling 300 565 361, falling 500 565 301, falling 550 565 241,
       falling 600 565 181, falling 100 560 121, falling 100 560 61,
       falling 100 560 1]
      [])"
  shows "reachable
     (scen 5 9 [False, False, True, True, True, True]
      [falling 300 565 366, falling 500 565 306, falling 550 565 246,
       falling 600 565 186, falling 100 560 126, falling 100 560 66,
       falling 100 560 6]
      [])"
proof -
  define l :: "(real \<times> real \<times> nat) list" where
    "l = [(300, 565, 361), (500, 565, 301), (550, 565, 241),
           (600, 565, 181), (100, 560, 121), (100, 560, 61),
           (100, 560, 1)]"
  define el :: "(nat \<times> real \<times> real) list" where
    "el = []"
  have "(update rand0 ^^ 5)
          (scen 0 9 [False, False, True, True, True, True]
            (map (fall 0) l) (map (expl 0) (filter (alive 0) el))) =
        scen (0 + int 5) 9 [False, False, True, True, True, True]
            (map (fall 5) l) (map (expl 5) (filter (alive 5) el))"
    by (rule quiet_stretch) (simp_all add: l_def el_def Game_init_eq power2_eq_square)
  with reach_funpow [OF assms rand0_ok, of 5] show ?thesis
    by (simp add: l_def el_def fall_def expl_def alive_def)
qed

lemma scenario_546:
  assumes "reachable
     (scen 5 9 [False, False, True, True, True, True]
      [falling 300 565 366, falling 500 565 306, falling 550 565 246,
       falling 600 565 186, falling 100 560 126, falling 100 560 66,
       falling 100 560 6]
      [])"
  shows "reachable
     (scen 6 9 [False, False, False, True, True, True]
      [falling 500 565 307, falling 550 565 247, falling 600 565 187,
       falling 100 560 127, falling 100 560 67, falling 100 560 7]
      [explosion_after 1 (Explosion 300 565)])"
proof -
  have "update (rand0)
     (scen 5 9 [False, False, True, True, True, True]
      [falling 300 565 366, falling 500 565 306, falling 550 565 246,
       falling 600 565 186, falling 100 560 126, falling 100 560 66,
       falling 100 560 6]
      []) =
   scen 6 9 [False, False, False, True, True, True]
      [falling 500 565 307, falling 550 565 247, falling 600 565 187,
       falling 100 560 127, falling 100 560 67, falling 100 560 7]
      [explosion_after 1 (Explosion 300 565)]"
    by (simp add: sim del: explosion_loop.simps(2))
  with reach_update [OF assms, of "rand0"] show ?thesis
    by (simp add: rand0_ok)
qed

lemma scenario_590:
  assumes "reachable
     (scen 6 9 [False, False, False, True, True, True]
      [falling 500 565 307, falling 550 565 247, falling 600 565 187,
       falling 100 560 127, falling 100 560 67, falling 100 560 7]
      [explosion_after 1 (Explosion 300 565)])"
  shows "reachable
     (scen 50 9 [False, False, False, True, True, True]
      [falling 500 565 351, falling 550 565 291, falling 600 565 231,
       falling 100 560 171, falling 100 560 111, falling 100 560 51]
      [])"
proof -
  define l :: "(real \<times> real \<times> nat) list" where
    "l = [(500, 565, 307), (550, 565, 247), (600, 565, 187),
           (100, 560, 127), (100, 560, 67), (100, 560, 7)]"
  define el :: "(nat \<times> real \<times> real) list" where
    "el = [(1, 300, 565)]"
  have "(update rand0 ^^ 44)
          (scen 6 9 [False, False, False, True, True, True]
            (map (fall 0) l) (map (expl 0) (filter (alive 0) el))) =
        scen (6 + int 44) 9 [False, False, False, True, True, True]
            (map (fall 44) l) (map (expl 44) (filter (alive 44) el))"
    by (rule quiet_stretch) (simp_all add: l_def el_def Game_init_eq power2_eq_square)
  with reach_funpow [OF assms rand0_ok, of 44] show ?thesis
    by (simp add: l_def el_def fall_def expl_def alive_def)
qed

lemma scenario_599:
  assumes "reachable
     (scen 50 9 [False, False, False, True, True, True]
      [falling 500 565 351, falling 550 565 291, falling 600 565 231,
       falling 100 560 171, falling 100 560 111, falling 100 560 51]
      [])"
  shows "reachable
     (scen 59 9 [False, False, False, True, True, True]
      [falling 500 565 360, falling 550 565 300, falling 600 565 240,
       falling 100 560 180, falling 100 560 120, falling 100 560 60]
      [])"
proof -
  define l :: "(real \<times> real \<times> nat) list" where
    "l = [(500, 565, 351), (550, 565, 291), (600, 565, 231),
           (100, 560, 171), (100, 560, 111), (100, 560, 51)]"
  define el :: "(nat \<times> real \<times> real) list" where
    "el = []"
  have "(update rand0 ^^ 9)
          (scen 50 9 [False, False, False, True, True, True]
            (map (fall 0) l) (map (expl 0) (filter (alive 0) el))) =
        scen (50 + int 9) 9 [False, False, False, True, True, True]
            (map (fall 9) l) (map (expl 9) (filter (alive 9) el))"
    by (rule quiet_stretch) (simp_all add: l_def el_def Game_init_eq power2_eq_square)
  with reach_funpow [OF assms rand0_ok, of 9] show ?thesis
    by (simp add: l_def el_def fall_def expl_def alive_def)
qed

lemma scenario_600:
  assumes "reachable
     (scen 59 9 [False, False, False, True, True, True]
      [falling 500 565 360, falling 550 565 300, falling 600 565 240,
       falling 100 560 180, falling 100 560 120, falling 100 560 60]
      [])"
  shows "reachable
     (scen 0 10 [False, False, False, True, True, True]
      [falling 500 565 361, falling 550 565 301, falling 600 565 241,
       falling 100 560 181, falling 100 560 121, falling 100 560 61,
       falling 100 560 1]
      [])"
proof -
  have "update (spawn_rand 100 3)
     (scen 59 9 [False, False, False, True, True, True]
      [falling 500 565 360, falling 550 565 300, falling 600 565 240,
       falling 100 560 180, falling 100 560 120, falling 100 560 60]
      []) =
   scen 0 10 [False, False, False, True, True, True]
      [falling 500 565 361, falling 550 565 301, falling 600 565 241,
       falling 100 560 181, falling 100 560 121, falling 100 560 61,
       falling 100 560 1]
      []"
    by (simp add: sim del: explosion_loop.simps(2))
  with reach_update [OF assms, of "spawn_rand 100 3"] show ?thesis
    by (simp add: spawn_rand_ok)
qed

lemma scenario_605:
  assumes "reachable
     (scen 0 10 [False, False, False, True, True, True]
      [falling 500 565 361, falling 550 565 301, falling 600 565 241,
       falling 100 560 181, falling 100 560 121, falling 100 560 61,
       falling 100 560 1]
      [])"
  shows "reachable
     (scen 5 10 [False, False, False, True, True, True]
      [falling 500 565 366, falling 550 565 306, falling 600 565 246,
       falling 100 560 186, falling 100 560 126, falling 100 560 66,
       falling 100 560 6]
      [])"
proof -
  define l :: "(real \<times> real \<times> nat) list" where
    "l = [(500, 565, 361), (550, 565, 301), (600, 565, 241),
           (100, 560, 181), (100, 560, 121), (100, 560, 61),
           (100, 560, 1)]"
  define el :: "(nat \<times> real \<times> real) list" where
    "el = []"
  have "(update rand0 ^^ 5)
          (scen 0 10 [False, False, False, True, True, True]
            (map (fall 0) l) (map (expl 0) (filter (alive 0) el))) =
        scen (0 + int 5) 10 [False, False, False, True, True, True]
            (map (fall 5) l) (map (expl 5) (filter (alive 5) el))"
    by (rule quiet_stretch) (simp_all add: l_def el_def Game_init_eq power2_eq_square)
  with reach_funpow [OF assms rand0_ok, of 5] show ?thesis
    by (simp add: l_def el_def fall_def expl_def alive_def)
qed

lemma scenario_606:
  assumes "reachable
     (scen 5 10 [False, False, False, True, True, True]
      [falling 500 565 366, falling 550 565 306, falling 600 565 246,
       falling 100 560 186, falling 100 560 126, falling 100 560 66,
       falling 100 560 6]
      [])"
  shows "reachable
     (scen 6 10 [False, False, False, False, True, True]
      [falling 550 565 307, falling 600 565 247, falling 100 560 187,
       falling 100 560 127, falling 100 560 67, falling 100 560 7]
      [explosion_after 1 (Explosion 500 565)])"
proof -
  have "update (rand0)
     (scen 5 10 [False, False, False, True, True, True]
      [falling 500 565 366, falling 550 565 306, falling 600 565 246,
       falling 100 560 186, falling 100 560 126, falling 100 560 66,
       falling 100 560 6]
      []) =
   scen 6 10 [False, False, False, False, True, True]
      [falling 550 565 307, falling 600 565 247, falling 100 560 187,
       falling 100 560 127, falling 100 560 67, falling 100 560 7]
      [explosion_after 1 (Explosion 500 565)]"
    by (simp add: sim del: explosion_loop.simps(2))
  with reach_update [OF assms, of "rand0"] show ?thesis
    by (simp add: rand0_ok)
qed

lemma scenario_650:
  assumes "reachable
     (scen 6 10 [False, False, False, False, True, True]
      [falling 550 565 307, falling 600 565 247, falling 100 560 187,
       falling 100 560 127, falling 100 560 67, falling 100 560 7]
      [explosion_after 1 (Explosion 500 565)])"
  shows "reachable
     (scen 50 10 [False, False, False, False, True, True]
      [falling 550 565 351, falling 600 565 291, falling 100 560 231,
       falling 100 560 171, falling 100 560 111, falling 100 560 51]
      [])"
proof -
  define l :: "(real \<times> real \<times> nat) list" where
    "l = [(550, 565, 307), (600, 565, 247), (100, 560, 187),
           (100, 560, 127), (100, 560, 67), (100, 560, 7)]"
  define el :: "(nat \<times> real \<times> real) list" where
    "el = [(1, 500, 565)]"
  have "(update rand0 ^^ 44)
          (scen 6 10 [False, False, False, False, True, True]
            (map (fall 0) l) (map (expl 0) (filter (alive 0) el))) =
        scen (6 + int 44) 10 [False, False, False, False, True, True]
            (map (fall 44) l) (map (expl 44) (filter (alive 44) el))"
    by (rule quiet_stretch) (simp_all add: l_def el_def Game_init_eq power2_eq_square)
  with reach_funpow [OF assms rand0_ok, of 44] show ?thesis
    by (simp add: l_def el_def fall_def expl_def alive_def)
qed

lemma scenario_659:
  assumes "reachable
     (scen 50 10 [False, False, False, False, True, True]
      [falling 550 565 351, falling 600 565 291, falling 100 560 231,
       falling 100 560 171, falling 100 560 111, falling 100 560 51]
      [])"
  shows "reachable
     (scen 59 10 [False, False, False, False, True, True]
      [falling 550 565 360, falling 600 565 300, falling 100 560 240,
       falling 100 560 180, falling 100 560 120, falling 100 560 60]
      [])"
proof -
  define l :: "(real \<times> real \<times> nat) list" where
    "l = [(550, 565, 351), (600, 565, 291), (100, 560, 231),
           (100, 560, 171), (100, 560, 111), (100, 560, 51)]"
  define el :: "(nat \<times> real \<times> real) list" where
    "el = []"
  have "(update rand0 ^^ 9)
          (scen 50 10 [False, False, False, False, True, True]
            (map (fall 0) l) (map (expl 0) (filter (alive 0) el))) =
        scen (50 + int 9) 10 [False, False, False, False, True, True]
            (map (fall 9) l) (map (expl 9) (filter (alive 9) el))"
    by (rule quiet_stretch) (simp_all add: l_def el_def Game_init_eq power2_eq_square)
  with reach_funpow [OF assms rand0_ok, of 9] show ?thesis
    by (simp add: l_def el_def fall_def expl_def alive_def)
qed

lemma scenario_660:
  assumes "reachable
     (scen 59 10 [False, False, False, False, True, True]
      [falling 550 565 360, falling 600 565 300, falling 100 560 240,
       falling 100 560 180, falling 100 560 120, falling 100 560 60]
      [])"
  shows "reachable
     (scen 0 11 [False, False, False, False, True, True]
      [falling 550 565 361, falling 600 565 301, falling 100 560 241,
       falling 100 560 181, falling 100 560 121, falling 100 560 61,
       falling 100 560 1]
      [])"
proof -
  have "update (spawn_rand 100 2)
     (scen 59 10 [False, False, False, False, True, True]
      [falling 550 565 360, falling 600 565 300, falling 100 560 240,
       falling 100 560 180, falling 100 560 120, falling 100 560 60]
      []) =
   scen 0 11 [False, False, False, False, True, True]
      [falling 550 565 361, falling 600 565 301, falling 100 560 241,
       falling 100 560 181, falling 100 560 121, falling 100 560 61,
       falling 100 560 1]
      []"
    by (simp add: sim del: explosion_loop.simps(2))
  with reach_update [OF assms, of "spawn_rand 100 2"] show ?thesis
    by (simp add: spawn_rand_ok)
qed

lemma scenario_665:
  assumes "reachable
     (scen 0 11 [False, False, False, False, True, True]
      [falling 550 565 361, falling 600 565 301, falling 100 560 241,
       falling 100 560 181, falling 100 560 121, falling 100 560 61,
       falling 100 560 1]
      [])"
  shows "reachable
     (scen 5 11 [False, False, False, False, True, True]
      [falling 550 565 366, falling 600 565 306, falling 100 560 246,
       falling 100 560 186, falling 100 560 126, falling 100 560 66,
       falling 100 560 6]
      [])"
proof -
  define l :: "(real \<times> real \<times> nat) list" where
    "l = [(550, 565, 361), (600, 565, 301), (100, 560, 241),
           (100, 560, 181), (100, 560, 121), (100, 560, 61),
           (100, 560, 1)]"
  define el :: "(nat \<times> real \<times> real) list" where
    "el = []"
  have "(update rand0 ^^ 5)
          (scen 0 11 [False, False, False, False, True, True]
            (map (fall 0) l) (map (expl 0) (filter (alive 0) el))) =
        scen (0 + int 5) 11 [False, False, False, False, True, True]
            (map (fall 5) l) (map (expl 5) (filter (alive 5) el))"
    by (rule quiet_stretch) (simp_all add: l_def el_def Game_init_eq power2_eq_square)
  with reach_funpow [OF assms rand0_ok, of 5] show ?thesis
    by (simp add: l_def el_def fall_def expl_def alive_def)
qed

lemma scenario_666:
  assumes "reachable
     (scen 5 11 [False, False, False, False, True, True]
      [falling 550 565 366, falling 600 565 306, falling 100 560 246,
       falling 100 560 186, falling 100 560 126, falling 100 560 66,
       falling 100 560 6]
      [])"
  shows "reachable
     (scen 6 11 [False, False, False, False, False, True]
      [falling 600 565 307, falling 100 560 247, falling 100 560 187,
       falling 100 560 127, falling 100 560 67, falling 100 560 7]
      [explosion_after 1 (Explosion 550 565)])"
proof -
  have "update (rand0)
     (scen 5 11 [False, False, False, False, True, True]
      [falling 550 565 366, falling 600 565 306, falling 100 560 246,
       falling 100 560 186, falling 100 560 126, falling 100 560 66,
       falling 100 560 6]
      []) =
   scen 6 11 [False, False, False, False, False, True]
      [falling 600 565 307, falling 100 560 247, falling 100 560 187,
       falling 100 560 127, falling 100 560 67, falling 100 560 7]
      [explosion_after 1 (Explosion 550 565)]"
    by (simp add: sim del: explosion_loop.simps(2))
  with reach_update [OF assms, of "rand0"] show ?thesis
    by (simp add: rand0_ok)
qed

lemma scenario_710:
  assumes "reachable
     (scen 6 11 [False, False, False, False, False, True]
      [falling 600 565 307, falling 100 560 247, falling 100 560 187,
       falling 100 560 127, falling 100 560 67, falling 100 560 7]
      [explosion_after 1 (Explosion 550 565)])"
  shows "reachable
     (scen 50 11 [False, False, False, False, False, True]
      [falling 600 565 351, falling 100 560 291, falling 100 560 231,
       falling 100 560 171, falling 100 560 111, falling 100 560 51]
      [])"
proof -
  define l :: "(real \<times> real \<times> nat) list" where
    "l = [(600, 565, 307), (100, 560, 247), (100, 560, 187),
           (100, 560, 127), (100, 560, 67), (100, 560, 7)]"
  define el :: "(nat \<times> real \<times> real) list" where
    "el = [(1, 550, 565)]"
  have "(update rand0 ^^ 44)
          (scen 6 11 [False, False, False, False, False, True]
            (map (fall 0) l) (map (expl 0) (filter (alive 0) el))) =
        scen (6 + int 44) 11 [False, False, False, False, False, True]
            (map (fall 44) l) (map (expl 44) (filter (alive 44) el))"
    by (rule quiet_stretch) (simp_all add: l_def el_def Game_init_eq power2_eq_square)
  with reach_funpow [OF assms rand0_ok, of 44] show ?thesis
    by (simp add: l_def el_def fall_def expl_def alive_def)
qed

lemma scenario_719:
  assumes "reachable
     (scen 50 11 [False, False, False, False, False, True]
      [falling 600 565 351, falling 100 560 291, falling 100 560 231,
       falling 100 560 171, falling 100 560 111, falling 100 560 51]
      [])"
  shows "reachable
     (scen 59 11 [False, False, False, False, False, True]
      [falling 600 565 360, falling 100 560 300, falling 100 560 240,
       falling 100 560 180, falling 100 560 120, falling 100 560 60]
      [])"
proof -
  define l :: "(real \<times> real \<times> nat) list" where
    "l = [(600, 565, 351), (100, 560, 291), (100, 560, 231),
           (100, 560, 171), (100, 560, 111), (100, 560, 51)]"
  define el :: "(nat \<times> real \<times> real) list" where
    "el = []"
  have "(update rand0 ^^ 9)
          (scen 50 11 [False, False, False, False, False, True]
            (map (fall 0) l) (map (expl 0) (filter (alive 0) el))) =
        scen (50 + int 9) 11 [False, False, False, False, False, True]
            (map (fall 9) l) (map (expl 9) (filter (alive 9) el))"
    by (rule quiet_stretch) (simp_all add: l_def el_def Game_init_eq power2_eq_square)
  with reach_funpow [OF assms rand0_ok, of 9] show ?thesis
    by (simp add: l_def el_def fall_def expl_def alive_def)
qed

lemma scenario_720:
  assumes "reachable
     (scen 59 11 [False, False, False, False, False, True]
      [falling 600 565 360, falling 100 560 300, falling 100 560 240,
       falling 100 560 180, falling 100 560 120, falling 100 560 60]
      [])"
  shows "reachable
     (scen 0 12 [False, False, False, False, False, True]
      [falling 600 565 361, falling 100 560 301, falling 100 560 241,
       falling 100 560 181, falling 100 560 121, falling 100 560 61,
       falling 100 560 1]
      [])"
proof -
  have "update (spawn_rand 100 1)
     (scen 59 11 [False, False, False, False, False, True]
      [falling 600 565 360, falling 100 560 300, falling 100 560 240,
       falling 100 560 180, falling 100 560 120, falling 100 560 60]
      []) =
   scen 0 12 [False, False, False, False, False, True]
      [falling 600 565 361, falling 100 560 301, falling 100 560 241,
       falling 100 560 181, falling 100 560 121, falling 100 560 61,
       falling 100 560 1]
      []"
    by (simp add: sim del: explosion_loop.simps(2))
  with reach_update [OF assms, of "spawn_rand 100 1"] show ?thesis
    by (simp add: spawn_rand_ok)
qed

lemma scenario_725:
  assumes "reachable
     (scen 0 12 [False, False, False, False, False, True]
      [falling 600 565 361, falling 100 560 301, falling 100 560 241,
       falling 100 560 181, falling 100 560 121, falling 100 560 61,
       falling 100 560 1]
      [])"
  shows "reachable
     (scen 5 12 [False, False, False, False, False, True]
      [falling 600 565 366, falling 100 560 306, falling 100 560 246,
       falling 100 560 186, falling 100 560 126, falling 100 560 66,
       falling 100 560 6]
      [])"
proof -
  define l :: "(real \<times> real \<times> nat) list" where
    "l = [(600, 565, 361), (100, 560, 301), (100, 560, 241),
           (100, 560, 181), (100, 560, 121), (100, 560, 61),
           (100, 560, 1)]"
  define el :: "(nat \<times> real \<times> real) list" where
    "el = []"
  have "(update rand0 ^^ 5)
          (scen 0 12 [False, False, False, False, False, True]
            (map (fall 0) l) (map (expl 0) (filter (alive 0) el))) =
        scen (0 + int 5) 12 [False, False, False, False, False, True]
            (map (fall 5) l) (map (expl 5) (filter (alive 5) el))"
    by (rule quiet_stretch) (simp_all add: l_def el_def Game_init_eq power2_eq_square)
  with reach_funpow [OF assms rand0_ok, of 5] show ?thesis
    by (simp add: l_def el_def fall_def expl_def alive_def)
qed

lemma last_city_reachable: "reachable last_city_state"
proof -
  have "reachable (scen 0 0 [True, True, True, True, True, True] [] [])"
    using reach_init by (simp add: scen_def Game_init_eq)
  note this
    [THEN scenario_59, THEN scenario_60, THEN scenario_119, THEN scenario_120,
     THEN scenario_179, THEN scenario_180, THEN scenario_239, THEN scenario_240,
     THEN scenario_299, THEN scenario_300, THEN scenario_359, THEN scenario_360,
     THEN scenario_419, THEN scenario_420, THEN scenario_425, THEN scenario_426,
     THEN scenario_470, THEN scenario_479, THEN scenario_480, THEN scenario_485,
     THEN scenario_486, THEN scenario_530, THEN scenario_539, THEN scenario_540,
     THEN scenario_545, THEN scenario_546, THEN scenario_590, THEN scenario_599,
     THEN scenario_600, THEN scenario_605, THEN scenario_606, THEN scenario_650,
     THEN scenario_659, THEN scenario_660, THEN scenario_665, THEN scenario_666,
     THEN scenario_710, THEN scenario_719, THEN scenario_720, THEN scenario_725]
  then show ?thesis
    by (simp add: last_city_state_def scen_def Game_init_eq)
qed

lemma game_over_state_reachable: "reachable game_over_state"
  unfolding game_over_state_def by (rule reach_update [OF last_city_reachable rand0_ok])

subsection \<open>Score of the loop over the missiles, and the explosions of reachable states\<close>

lemma enemy_loop_score:
  "score (enemy_loop ms kept g) = score g + 25 * int (blast_kills ms g)"
proof (induction ms arbitrary: kept g)
  case Nil
  show ?case by simp
next
  case (Cons m0 ms)
  define m where "m = missile_update m0"
  show ?case
  proof (cases "destroyed_by (explosions g) (m_x m) (m_y m)")
    case True
    then have r: "resolve_threat m0 g = (None, g\<lparr>score := score g + 25\<rparr>)"
      by (simp add: resolve_threat_def m_def Let_def)
    show ?thesis
      using True Cons.IH [of kept "g\<lparr>score := score g + 25\<rparr>"]
      by (simp add: r m_def)
  next
    case False
    obtain res g' where r: "resolve_threat m0 g = (res, g')" by (cases "resolve_threat m0 g")
    with False have s: "score g' = score g"
      by (auto simp add: resolve_threat_def m_def Let_def ground_impact_def split: if_splits)
    show ?thesis
      using False Cons.IH [of _ g'] s
      by (cases res) (simp_all add: r m_def)
  qed
qed

lemma blast_ok_Explosion: "blast_ok (Explosion x y)"
  by (simp add: blast_ok_def Explosion_def EXPLOSION_MAX_RADIUS_def EXPLOSION_DURATION_def
        EXPLOSION_GROWTH_RATE_def)

lemma blast_ok_update:
  "blast_ok e \<Longrightarrow> snd (explosion_update e) \<Longrightarrow> blast_ok (fst (explosion_update e))"
  by (auto simp add: blast_ok_def explosion_update_def explosion_grow_def Let_def
        EXPLOSION_MAX_RADIUS_def EXPLOSION_DURATION_def EXPLOSION_GROWTH_RATE_def min_def)

lemma blast_ok_after:
  "blast_ok e \<Longrightarrow> e = explosion_after (nat (EXPLOSION_DURATION - timer e)) (Explosion (e_x e) (e_y e))"
  by (cases e)
     (auto simp add: blast_ok_def explosion_after_fresh EXPLOSION_MAX_RADIUS_def
        EXPLOSION_DURATION_def EXPLOSION_GROWTH_RATE_def min_def)

lemma blast_ok_loop: "list_all blast_ok es \<Longrightarrow> list_all blast_ok (explosion_loop es)"
proof (induction es)
  case Nil
  show ?case by simp
next
  case (Cons e es)
  obtain e' a where u: "explosion_update e = (e', a)" by (cases "explosion_update e")
  from Cons.prems have "blast_ok e" by simp
  from blast_ok_update [OF this] u have "a \<Longrightarrow> blast_ok e'" by simp
  with Cons show ?case by (auto simp add: u)
qed

lemma hit_city_fresh: "list_all blast_ok (snd (hit_city x cs))"
  by (induction cs) (auto simp add: blast_ok_Explosion)

lemma hit_base_fresh: "list_all blast_ok (snd (hit_base x bs))"
  by (induction bs) (auto simp add: blast_ok_Explosion)

lemma fresh_ground_impact: "all_blasts_ok g \<Longrightarrow> all_blasts_ok (ground_impact x g)"
  by (simp add: all_blasts_ok_def ground_impact_def Let_def hit_city_fresh hit_base_fresh)

lemma fresh_entities_phase:
  assumes "all_blasts_ok g"
  shows "all_blasts_ok (entities_phase r g)"
proof -
  have 1: "all_blasts_ok (spawn_phase r (flash_phase g))"
    using assms
    by (simp add: all_blasts_ok_def flash_phase_def spawn_phase_def spawn_enemy_missile_def
          Let_def split: prod.splits)
  have 2: "all_blasts_ok (player_phase (spawn_phase r (flash_phase g)))"
    unfolding player_phase_def
    by (rule player_loop_preserves [where P = all_blasts_ok])
       (use 1 in \<open>simp_all add: all_blasts_ok_def blast_ok_Explosion\<close>)
  have 3: "all_blasts_ok (enemy_phase (player_phase (spawn_phase r (flash_phase g))))"
    unfolding enemy_phase_def
  proof (rule enemy_loop_preserves [where P = all_blasts_ok])
    show "all_blasts_ok (snd (resolve_threat m g))" if "all_blasts_ok g" for m g
      using that fresh_ground_impact [OF that]
      by (simp add: resolve_threat_def Let_def all_blasts_ok_def)
  qed (use 2 in \<open>simp_all add: all_blasts_ok_def\<close>)
  show ?thesis
    unfolding entities_phase_def
    using 3 by (simp add: explosion_phase_def all_blasts_ok_def blast_ok_loop)
qed

lemma fresh_update: "all_blasts_ok g \<Longrightarrow> all_blasts_ok (update r g)"
proof (cases "game_over g")
  case True
  assume "all_blasts_ok g"
  with True show ?thesis by (simp add: update_def)
next
  case False
  assume "all_blasts_ok g"
  then have "all_blasts_ok (entities_phase r g)" by (rule fresh_entities_phase)
  then show ?thesis
    using False
    by (simp add: update_playing all_blasts_ok_def level_check_def level_complete_fields
          game_over_check_eq)
qed

lemma fire_from_explosions: "fire_from i tx ty g = Inr g' \<Longrightarrow> explosions g' = explosions g"
  by (auto simp add: fire_from_def split: if_splits prod.splits option.splits)

lemma fresh_event: "all_blasts_ok g \<Longrightarrow> handle_event e g = Inr g' \<Longrightarrow> all_blasts_ok g'"
  by (cases e)
     (auto simp add: all_blasts_ok_def restart_def setup_game_fields
        split: if_splits dest: fire_from_explosions)

lemma reachable_explosions: "reachable g \<Longrightarrow> all_blasts_ok g"
proof (induction rule: reachable.induct)
  case reach_init
  show ?case by (simp add: all_blasts_ok_def Game_init_eq)
next
  case (reach_event g e g')
  then show ?case by (simp add: fresh_event)
next
  case (reach_update g r)
  then show ?case by (simp add: fresh_update)
qed

lemma reachable_layout: "reachable g \<Longrightarrow> layout g"
  using reachable_inv [of g] by (simp add: game_inv_def)

lemma layout_static: "layout g \<Longrightarrow> static_fields g g' \<Longrightarrow> layout g'"
  by (simp add: layout_def static_fields_def)

lemma layout_resolve_threat: "layout g \<Longrightarrow> layout (snd (resolve_threat m g))"
  by (simp add: layout_def resolve_threat_def Let_def ground_impact_fields)

subsection \<open>Counting inside level 1\<close>

lemma enemy_loop_count:
  "length (enemy_missiles (enemy_loop ms kept g)) + blast_kills ms g + ground_hits ms g =
   length kept + length ms"
proof (induction ms arbitrary: kept g)
  case Nil
  show ?case by simp
next
  case (Cons m0 ms)
  define m where "m = missile_update m0"
  consider (a) "destroyed_by (explosions g) (m_x m) (m_y m)"
    | (b) "\<not> destroyed_by (explosions g) (m_x m) (m_y m)" "m_y m \<ge> real_of_int (SCREEN_HEIGHT - 50)"
    | (c) "\<not> destroyed_by (explosions g) (m_x m) (m_y m)" "\<not> m_y m \<ge> real_of_int (SCREEN_HEIGHT - 50)"
    by blast
  then show ?case
  proof cases
    case a
    then have r: "resolve_threat m0 g = (None, g\<lparr>score := score g + 25\<rparr>)"
      by (simp add: resolve_threat_def m_def Let_def)
    show ?thesis
      using a Cons.IH [of kept "g\<lparr>score := score g + 25\<rparr>"]
      by (simp add: r m_def)
  next
    case b
    then have r: "resolve_threat m0 g = (None, ground_impact (m_x m) g)"
      by (simp add: resolve_threat_def m_def Let_def)
    show ?thesis
      using b Cons.IH [of kept "ground_impact (m_x m) g"]
      by (simp add: r m_def)
  next
    case c
    then have r: "resolve_threat m0 g = (Some m, g)"
      by (simp add: resolve_threat_def m_def Let_def)
    show ?thesis
      using c Cons.IH [of "kept @ [m]" g]
      by (simp add: r m_def)
  qed
qed

lemma enemy_loop_no_hits:
  "ground_hits ms g = 0 \<Longrightarrow> cities (enemy_loop ms kept g) = cities g"
proof (induction ms arbitrary: kept g)
  case Nil
  show ?case by simp
next
  case (Cons m0 ms)
  define m where "m = missile_update m0"
  show ?case
  proof (cases "destroyed_by (explosions g) (m_x m) (m_y m)")
    case True
    then have r: "resolve_threat m0 g = (None, g\<lparr>score := score g + 25\<rparr>)"
      by (simp add: resolve_threat_def m_def Let_def)
    from Cons.prems True have "ground_hits ms (g\<lparr>score := score g + 25\<rparr>) = 0"
      by (simp add: r m_def)
    from Cons.IH [OF this, of kept] show ?thesis
      by (simp add: r)
  next
    case False
    with Cons.prems have ng: "\<not> m_y m \<ge> real_of_int (SCREEN_HEIGHT - 50)"
      by (auto simp add: m_def split: if_splits)
    with False have r: "resolve_threat m0 g = (Some m, g)"
      by (simp add: resolve_threat_def m_def Let_def)
    from Cons.prems False ng have "ground_hits ms g = 0"
      by (simp add: r m_def)
    from Cons.IH [OF this, of "kept @ [m]"] show ?thesis
      by (simp add: r)
  qed
qed

lemma enemy_loop_spawned:
  "missiles_spawned_this_level (enemy_loop ms kept g) = missiles_spawned_this_level g"
  by (rule enemy_loop_preserves [where P = "\<lambda>g'. missiles_spawned_this_level g' = missiles_spawned_this_level g"])
     (simp_all add: resolve_threat_def Let_def ground_impact_def)

lemma player_loop_frame:
  "enemy_missiles (player_loop ms kept g) = enemy_missiles g \<and>
   missiles_spawned_this_level (player_loop ms kept g) = missiles_spawned_this_level g \<and>
   score (player_loop ms kept g) = score g \<and>
   cities (player_loop ms kept g) = cities g"
  by (induction ms kept g rule: player_loop.induct) (simp_all add: Let_def)

lemma spawn_phase_frame:
  "score (spawn_phase r g) = score g \<and> cities (spawn_phase r g) = cities g \<and>
   missiles_spawned_this_level (spawn_phase r g) - int (length (enemy_missiles (spawn_phase r g))) =
     missiles_spawned_this_level g - int (length (enemy_missiles g)) \<and>
   (missiles_spawned_this_level g \<le> missiles_per_level g \<longrightarrow>
      missiles_spawned_this_level (spawn_phase r g) \<le> missiles_per_level g)"
  by (simp add: spawn_phase_def spawn_enemy_missile_def Let_def split: prod.splits)

lemma level1_entities:
  assumes "level1_inv K H g"
  shows "level1_inv (K + tick_kills r g) (H + tick_hits r g) (entities_phase r g)"
proof -
  define g1 where "g1 = spawn_phase r (flash_phase g)"
  define g2 where "g2 = player_phase g1"
  define g3 where "g3 = enemy_phase g2"
  have m: "entities_phase r g = explosion_phase g3"
    by (simp add: entities_phase_def g1_def g2_def g3_def)
  have k: "tick_kills r g = blast_kills (enemy_missiles g2) g2"
    and h: "tick_hits r g = ground_hits (enemy_missiles g2) g2"
    by (simp_all add: tick_kills_def tick_hits_def g1_def g2_def Let_def)
  have st: "static_fields g (entities_phase r g)"
    by (rule static_entities_phase)
  from assms have a: "level g = 1" "score g = 25 * int K"
    "missiles_spawned_this_level g = int (length (enemy_missiles g)) + int K + int H"
    "missiles_spawned_this_level g \<le> 30" "missiles_per_level g = 30" "starting_ammo g = 10"
    "length (bases g) = 3" "length (cities g) = 6" "H = 0 \<longrightarrow> list_all c_active (cities g)"
    by (simp_all add: level1_inv_def)
  have f: "score (flash_phase g) = score g" "cities (flash_phase g) = cities g"
    "missiles_spawned_this_level (flash_phase g) = missiles_spawned_this_level g"
    "enemy_missiles (flash_phase g) = enemy_missiles g"
    "missiles_per_level (flash_phase g) = missiles_per_level g"
    by (simp_all add: flash_phase_def)
  have s1: "score g1 = score g" "cities g1 = cities g"
    "missiles_spawned_this_level g1 = int (length (enemy_missiles g1)) + int K + int H"
    "missiles_spawned_this_level g1 \<le> 30"
    using spawn_phase_frame [of r "flash_phase g"] a f
    by (simp_all add: g1_def)
  have s2: "score g2 = score g" "cities g2 = cities g"
    "missiles_spawned_this_level g2 = int (length (enemy_missiles g2)) + int K + int H"
    "missiles_spawned_this_level g2 \<le> 30"
    using player_loop_frame [of "player_missiles g1" "[]" g1] s1
    by (simp_all add: g2_def player_phase_def)
  have c3: "length (enemy_missiles g3) + tick_kills r g + tick_hits r g = length (enemy_missiles g2)"
    using enemy_loop_count [of "enemy_missiles g2" "[]" g2]
    by (simp add: g3_def enemy_phase_def k h)
  have s3: "score g3 = score g + 25 * int (tick_kills r g)"
    "missiles_spawned_this_level g3 = missiles_spawned_this_level g2"
    by (simp_all add: g3_def enemy_phase_def enemy_loop_score enemy_loop_spawned s2 k)
  have ci: "H + tick_hits r g = 0 \<longrightarrow> list_all c_active (cities g3)"
  proof
    assume z: "H + tick_hits r g = 0"
    then have "ground_hits (enemy_missiles g2) g2 = 0" by (simp add: h)
    from enemy_loop_no_hits [OF this, of "[]"] have "cities g3 = cities g"
      by (simp add: g3_def enemy_phase_def s2)
    with a(9) z show "list_all c_active (cities g3)" by simp
  qed
  have len: "length (cities (entities_phase r g)) = 6" "length (bases (entities_phase r g)) = 3"
  proof -
    from st have "map c_x (cities (entities_phase r g)) = map c_x (cities g)"
      "map b_x (bases (entities_phase r g)) = map b_x (bases g)"
      by (simp_all add: static_fields_def)
    then have "length (map c_x (cities (entities_phase r g))) = length (map c_x (cities g))"
      "length (map b_x (bases (entities_phase r g))) = length (map b_x (bases g))"
      by simp_all
    with a show "length (cities (entities_phase r g)) = 6" "length (bases (entities_phase r g)) = 3"
      by simp_all
  qed
  have e: "score (explosion_phase g3) = score g3" "cities (explosion_phase g3) = cities g3"
    "missiles_spawned_this_level (explosion_phase g3) = missiles_spawned_this_level g3"
    "enemy_missiles (explosion_phase g3) = enemy_missiles g3"
    by (simp_all add: explosion_phase_def)
  from st a have "level (entities_phase r g) = 1" "missiles_per_level (entities_phase r g) = 30"
    "starting_ammo (entities_phase r g) = 10"
    by (simp_all add: static_fields_def)
  with len ci c3 s3 s2 e show ?thesis
    unfolding level1_inv_def m [symmetric]
    by (simp add: m a(2))
qed

lemma level1_init: "level1_inv 0 0 Game_init"
  by (simp add: level1_inv_def Game_init_eq)

lemma fire_from_level1:
  "fire_from i tx ty g = Inr g' \<Longrightarrow> level1_inv K H g \<Longrightarrow> level1_inv K H g'"
  by (auto simp add: fire_from_def level1_inv_def split: if_splits prod.splits option.splits)

lemma level1_event:
  "level1_inv K H g \<Longrightarrow> \<not> game_over g \<Longrightarrow> handle_event e g = Inr g' \<Longrightarrow> level1_inv K H g'"
proof (cases e)
  case QUIT
  assume "level1_inv K H g" "handle_event e g = Inr g'"
  with QUIT show ?thesis by (auto simp add: level1_inv_def)
next
  case (MOUSEBUTTONDOWN b mx my)
  assume "level1_inv K H g" "handle_event e g = Inr g'"
  with MOUSEBUTTONDOWN show ?thesis
    by (auto split: if_splits dest: fire_from_level1)
next
  case (KEYDOWN k)
  assume "level1_inv K H g" "\<not> game_over g" "handle_event e g = Inr g'"
  with KEYDOWN show ?thesis by simp
next
  case OTHER_EVENT
  assume "level1_inv K H g" "handle_event e g = Inr g'"
  with OTHER_EVENT show ?thesis by simp
qed

lemma level1_update:
  assumes "level1_inv K H g" "\<not> game_over g" "\<not> level_completes r g"
  shows "level1_inv (K + tick_kills r g) (H + tick_hits r g) (update r g)"
proof -
  from assms(2,3) have "\<not> level_complete_cond (entities_phase r g)"
    by (auto simp add: level_completes_def update_level)
  with assms(2) have "update r g = game_over_check (entities_phase r g)"
    by (simp add: update_playing level_check_def)
  with level1_entities [OF assms(1), of r] show ?thesis
    by (simp add: level1_inv_def game_over_check_eq)
qed

lemma level1_run_inv: "level1_run K H g \<Longrightarrow> level1_inv K H g"
  by (induction rule: level1_run.induct) (simp_all add: level1_init level1_event level1_update)

lemma level1_completion:
  assumes "level1_inv K H g" "\<not> game_over g" "level_completes r g" "H + tick_hits r g = 0"
  shows "K + tick_kills r g = 30 \<and>
         score (update r g) = 30 * 25 + 6 * 100 + 3 * 50 \<and>
         level (update r g) = 2 \<and> missiles_per_level (update r g) = 30"
proof -
  define m where "m = entities_phase r g"
  from assms(2,3) have c: "level_complete_cond m"
    by (auto simp add: level_completes_def update_level m_def split: if_splits)
  have i: "level1_inv (K + tick_kills r g) (H + tick_hits r g) m"
    unfolding m_def by (rule level1_entities [OF assms(1)])
  from c have c': "enemy_missiles m = []" "missiles_spawned_this_level m \<ge> missiles_per_level m"
    by (simp_all add: level_complete_cond_def)
  from i assms(4) have i': "level m = 1" "score m = 25 * int (K + tick_kills r g)"
    "missiles_spawned_this_level m = int (length (enemy_missiles m)) + int (K + tick_kills r g)"
    "missiles_spawned_this_level m \<le> 30" "missiles_per_level m = 30" "starting_ammo m = 10"
    "length (bases m) = 3" "length (cities m) = 6" "list_all c_active (cities m)"
    by (simp_all add: level1_inv_def)
  from c' i' have k: "K + tick_kills r g = 30"
    by simp
  from i'(9) have "filter c_active (cities m) = cities m"
    by (simp add: list_all_iff)
  then have n: "length (filter c_active (cities m)) = 6"
    using i'(8) by simp
  have u: "update r g = level_complete r (game_over_check m)"
    using assms(2) c by (simp add: update_playing m_def level_check_def)
  show ?thesis
    using k n i'
    by (simp add: u level_complete_fields game_over_check_eq)
qed

lemma last_tick_counts:
  "tick_kills rand0 last_tick_state = 1 \<and> tick_hits rand0 last_tick_state = 0"
proof -
  have 1: "player_phase (spawn_phase rand0 (flash_phase last_tick_state)) =
           last_tick_state\<lparr>enemy_spawn_timer := 18\<rparr>"
    by (simp add: flash_phase_def spawn_phase_def player_phase_def last_tick_state_def
          Game_init_eq Let_def)
  show ?thesis
    unfolding tick_kills_def tick_hits_def Let_def 1
    by (simp add: last_tick_state_def falling_update falling_pos destroyed_by_iff
          collides_with_iff explosion_after_fresh power2_eq_square resolve_threat_def Let_def)
qed

subsection \<open>Events never fail, and the counters stay in range\<close>

lemma layout_length: "layout g \<Longrightarrow> length (bases g) = 3 \<and> length (cities g) = 6"
proof -
  assume "layout g"
  then have "map c_x (cities g) = [200, 250, 300, 500, 550, 600]" "map b_x (bases g) = [100, 400, 700]"
    by (simp_all add: layout_def)
  then have "length (map c_x (cities g)) = length [200, 250, 300, 500, 550, 600 :: real]"
    "length (map b_x (bases g)) = length [100, 400, 700 :: real]"
    by (simp_all only:)
  then show ?thesis by simp
qed

lemma handle_event_total: "layout g \<Longrightarrow> \<exists>g'. handle_event e g = Inr g'"
proof -
  assume "layout g"
  from layout_length [OF this] have l: "length (bases g) = 3" by simp
  have f: "\<exists>g'. fire_from i tx ty g = Inr g'" if "i < 3" for i tx ty
    using that l by (auto simp add: fire_from_def split: prod.splits option.splits)
  show ?thesis
    by (cases e) (auto simp add: f)
qed

lemma handle_events_total: "reachable g \<Longrightarrow> \<exists>g'. handle_events es g = Inr g' \<and> reachable g'"
proof (induction es arbitrary: g)
  case Nil
  then show ?case by simp
next
  case (Cons e es)
  from handle_event_total [OF reachable_layout [OF Cons.prems], of e]
  obtain g1 where g1: "handle_event e g = Inr g1" by blast
  from reach_event [OF Cons.prems g1] have "reachable g1" .
  from Cons.IH [OF this] g1 show ?case by simp
qed

lemma pacing_entities:
  assumes "pacing_inv g"
  shows "pacing_inv (entities_phase r g)"
proof -
  define g1 where "g1 = spawn_phase r (flash_phase g)"
  define g2 where "g2 = player_phase g1"
  define g3 where "g3 = enemy_phase g2"
  have st: "static_fields g (entities_phase r g)"
    by (rule static_entities_phase)
  have 1: "0 \<le> missiles_spawned_this_level g1 \<and> missiles_spawned_this_level g1 \<le> missiles_per_level g \<and>
           0 \<le> enemy_spawn_timer g1 \<and> score g1 = score g"
    using assms
    by (simp add: g1_def pacing_inv_def flash_phase_def spawn_phase_def spawn_enemy_missile_def
          Let_def split: prod.splits)
  have 2: "missiles_spawned_this_level g2 = missiles_spawned_this_level g1 \<and>
           enemy_spawn_timer g2 = enemy_spawn_timer g1 \<and> score g2 = score g1"
    unfolding g2_def player_phase_def
    by (rule player_loop_preserves
          [where P = "\<lambda>g'. missiles_spawned_this_level g' = missiles_spawned_this_level g1 \<and>
                           enemy_spawn_timer g' = enemy_spawn_timer g1 \<and> score g' = score g1"])
       simp_all
  have 3: "missiles_spawned_this_level g3 = missiles_spawned_this_level g2 \<and>
           enemy_spawn_timer g3 = enemy_spawn_timer g2"
    unfolding g3_def enemy_phase_def
    by (rule enemy_loop_preserves
          [where P = "\<lambda>g'. missiles_spawned_this_level g' = missiles_spawned_this_level g2 \<and>
                           enemy_spawn_timer g' = enemy_spawn_timer g2"])
       (simp_all add: resolve_threat_def Let_def ground_impact_def)
  have 4: "score g2 \<le> score g3"
    by (simp add: g3_def enemy_phase_def enemy_loop_score)
  have m: "entities_phase r g = explosion_phase g3"
    by (simp add: entities_phase_def g1_def g2_def g3_def)
  from st assms have s: "30 \<le> enemy_spawn_rate (entities_phase r g)"
    "enemy_spawn_rate (entities_phase r g) \<le> 60" "1 \<le> level (entities_phase r g)"
    "missiles_per_level (entities_phase r g) = missiles_per_level g"
    by (simp_all add: static_fields_def pacing_inv_def)
  from assms have "0 \<le> score g" by (simp add: pacing_inv_def)
  with 1 2 3 4 s show ?thesis
    unfolding pacing_inv_def
    by (simp add: m explosion_phase_def)
qed

lemma pacing_update:
  assumes "pacing_inv g" "game_inv g"
  shows "pacing_inv (update r g)"
proof (cases "game_over g")
  case True
  with assms show ?thesis by (simp add: update_def)
next
  case False
  define m where "m = entities_phase r g"
  have p: "pacing_inv m"
    unfolding m_def by (rule pacing_entities [OF assms(1)])
  have u: "update r g = level_check r (game_over_check m)"
    using False by (simp add: update_playing m_def)
  have "static_fields g m"
    unfolding m_def by (rule static_entities_phase)
  with assms(2) have q: "starting_ammo m = 10"
    by (simp add: static_fields_def game_inv_def)
  show ?thesis
    using p q
    by (simp add: u pacing_inv_def level_check_def level_complete_fields game_over_check_eq)
qed

lemma pacing_event:
  "pacing_inv g \<Longrightarrow> handle_event e g = Inr g' \<Longrightarrow> pacing_inv g'"
  by (cases e)
     (auto simp add: pacing_inv_def fire_from_def restart_def setup_game_frame
        split: if_splits prod.splits option.splits)

section \<open>The claims\<close>

text \<open>Claim C1. A missile that reaches the ground line (the loop body then is
  \<open>ground_impact\<close> at the missile's column) destroys at most one ground entity: the first
  active city within 20 units of its column, or, when no city matches, the first active
  base within 20 units; never a city and a base together. The source runs the loop over
  the bases after the loop over the cities without an \<^verbatim>\<open>else\<close>, so the statement rests
  on where \<open>setup_game\<close> puts the cities and bases: no column is within 20 units of a
  city and of a base. This is the hypothesis \<open>layout\<close>; it holds in every reachable state
  (\<open>reachable_layout\<close>) and in every state inside a tick (\<open>layout_static\<close>,
  \<open>static_entities_phase\<close>, \<open>layout_resolve_threat\<close>). "Within" is the strict test
  \<open>< 20\<close> of the source.\<close>

theorem ground_impact_at_most_one:
  assumes "layout g"
  shows "(\<not> destroyed_by (explosions g) (m_x (missile_update m0)) (m_y (missile_update m0)) \<and>
          m_y (missile_update m0) \<ge> real_of_int (SCREEN_HEIGHT - 50) \<longrightarrow>
            resolve_threat m0 g = (None, ground_impact (m_x (missile_update m0)) g)) \<and>
         (if list_ex (city_match x) (cities g)
          then (\<exists>pre c post. cities g = pre @ c # post \<and> \<not> list_ex (city_match x) pre \<and>
                  city_match x c \<and>
                  cities (ground_impact x g) = pre @ c\<lparr>c_active := False\<rparr> # post) \<and>
               bases (ground_impact x g) = bases g
          else cities (ground_impact x g) = cities g \<and>
               (if list_ex (base_match x) (bases g)
                then (\<exists>pre b post. bases g = pre @ b # post \<and> \<not> list_ex (base_match x) pre \<and>
                        base_match x b \<and>
                        bases (ground_impact x g) = pre @ b\<lparr>b_active := False\<rparr> # post)
                else bases (ground_impact x g) = bases g)) \<and>
         active_count g \<le> active_count (ground_impact x g) + 1 \<and>
         \<not> (cities (ground_impact x g) \<noteq> cities g \<and> bases (ground_impact x g) \<noteq> bases g) \<and>
         layout (ground_impact x g)"
proof -
  have r: "\<not> destroyed_by (explosions g) (m_x (missile_update m0)) (m_y (missile_update m0)) \<and>
          m_y (missile_update m0) \<ge> real_of_int (SCREEN_HEIGHT - 50) \<longrightarrow>
            resolve_threat m0 g = (None, ground_impact (m_x (missile_update m0)) g)"
    by (simp add: resolve_threat_def Let_def)
  have l: "layout (ground_impact x g)"
    using assms by (simp add: layout_def ground_impact_fields)
  show ?thesis
  proof (cases "list_ex (city_match x) (cities g)")
    case True
    from layout_exclusive [OF assms True] have nb: "\<not> list_ex (base_match x) (bases g)" .
    from hit_city_some [OF True] obtain pre c post where
      h: "cities g = pre @ c # post" "\<not> list_ex (city_match x) pre" "city_match x c"
         "hit_city x (cities g) = (pre @ c\<lparr>c_active := False\<rparr> # post, [Explosion (c_x c) (c_y c)])"
      by blast
    have b: "bases (ground_impact x g) = bases g"
      by (simp add: ground_impact_fields hit_base_none [OF nb])
    have c: "cities (ground_impact x g) = pre @ c\<lparr>c_active := False\<rparr> # post"
      by (simp add: ground_impact_fields h(4))
    have "active_count g \<le> active_count (ground_impact x g) + 1"
      by (simp add: active_count_def b c h(1))
    with True b c h r l show ?thesis by auto
  next
    case False
    have c: "cities (ground_impact x g) = cities g"
      by (simp add: ground_impact_fields hit_city_none [OF False])
    show ?thesis
    proof (cases "list_ex (base_match x) (bases g)")
      case True
      from hit_base_some [OF True] obtain pre b post where
        h: "bases g = pre @ b # post" "\<not> list_ex (base_match x) pre" "base_match x b"
           "hit_base x (bases g) = (pre @ b\<lparr>b_active := False\<rparr> # post, [Explosion (b_x b) (b_y b)])"
        by blast
      have b: "bases (ground_impact x g) = pre @ b\<lparr>b_active := False\<rparr> # post"
        by (simp add: ground_impact_fields h(4))
      have "active_count g \<le> active_count (ground_impact x g) + 1"
        by (simp add: active_count_def b c h(1))
      with False True b c h r l show ?thesis by auto
    next
      case F2: False
      have b: "bases (ground_impact x g) = bases g"
        by (simp add: ground_impact_fields hit_base_none [OF F2])
      show ?thesis using False F2 b c r l by (simp add: active_count_def)
    qed
  qed
qed

theorem ground_impact_at_most_one_witness:
  "layout Game_init \<and>
   resolve_threat (falling 200 565 366) Game_init = (None, ground_impact 200 Game_init) \<and>
   map c_active (cities (ground_impact 200 Game_init)) = [False, True, True, True, True, True] \<and>
   bases (ground_impact 200 Game_init) = bases Game_init \<and>
   map c_active (cities (ground_impact 210 Game_init)) = [False, True, True, True, True, True] \<and>
   bases (ground_impact 210 Game_init) = bases Game_init \<and>
   active_count Game_init = active_count (ground_impact 210 Game_init) + 1 \<and>
   cities (ground_impact 95 Game_init) = cities Game_init \<and>
   map b_active (bases (ground_impact 95 Game_init)) = [False, True, True] \<and>
   ground_impact 150 Game_init = Game_init"
proof -
  have h: "layout Game_init"
    by (simp add: layout_def Game_init_eq)
  have m: "m_x (missile_update (falling 200 565 366)) = 200"
    "m_y (missile_update (falling 200 565 366)) \<ge> real_of_int (SCREEN_HEIGHT - 50)"
    "\<not> destroyed_by (explosions Game_init) (m_x (missile_update (falling 200 565 366)))
         (m_y (missile_update (falling 200 565 366)))"
    by (simp_all add: falling_update falling_pos SCREEN_HEIGHT_def Game_init_eq)
  show ?thesis
    using h m ground_impact_at_most_one [OF h, of "falling 200 565 366" 210]
      ground_impact_at_most_one [OF h, of "falling 200 565 366" 95]
      ground_impact_at_most_one [OF h, of "falling 200 565 366" 150]
      ground_impact_at_most_one [OF h, of "falling 200 565 366" 200]
    by (simp add: Game_init_eq ground_impact_def Let_def active_count_def)
qed

text \<open>Claim C2. The restart after a game over resets the score, the level, the cities,
  the bases and the three collections, but neither the spawn timer nor the count of
  missiles spawned this level (nor the spawn interval, see \<open>restart_frame\<close>):
  \<^verbatim>\<open>__init__\<close> sets them, the restart branch of \<^verbatim>\<open>handle_events\<close> does not. The
  state \<open>game_over_state\<close> is the game over of the run of \<open>last_city_reachable\<close>; the
  game restarted from it differs from the initial one in exactly these two fields.\<close>

theorem restart_keeps_spawn_pacing:
  "reachable game_over_state \<and>
   game_over game_over_state \<and>
   handle_event (KEYDOWN K_SPACE) game_over_state = Inr (restart game_over_state) \<and>
   restart game_over_state =
     Game_init\<lparr>enemy_spawn_timer := 6, missiles_spawned_this_level := 12\<rparr> \<and>
   enemy_spawn_timer (restart game_over_state) = 6 \<and>
   missiles_spawned_this_level (restart game_over_state) = 12 \<and>
   enemy_spawn_timer Game_init = 0 \<and>
   missiles_spawned_this_level Game_init = 0 \<and>
   restart game_over_state \<noteq> Game_init"
proof -
  have "missiles_spawned_this_level (restart game_over_state) \<noteq> missiles_spawned_this_level Game_init"
    unfolding restart_game_over_state by (simp add: Game_init_eq)
  then have ne: "restart game_over_state \<noteq> Game_init" by auto
  have ev: "handle_event (KEYDOWN K_SPACE) game_over_state = Inr (restart game_over_state)"
    using game_over_state_over by simp
  have fs: "enemy_spawn_timer (restart game_over_state) = 6"
    "missiles_spawned_this_level (restart game_over_state) = 12"
    "enemy_spawn_timer Game_init = 0" "missiles_spawned_this_level Game_init = 0"
    unfolding restart_game_over_state by (simp_all add: Game_init_eq)
  from ne ev fs game_over_state_over restart_game_over_state game_over_state_reachable
  show ?thesis by simp
qed

text \<open>Claim C3. In a tick that starts in PLAYING, the level-completion branch is taken
  exactly when, after the spawn and the entity loops of that tick, no enemy missile is
  left, the number spawned this level has reached the quota, and some city is active. In
  a tick that starts in GAME\_OVER it is never taken, and in a reachable GAME\_OVER state
  no city is active. When it is taken, the state after the tick has no enemy missile
  and an active city.\<close>

theorem level_completion_iff:
  "(\<not> game_over g \<longrightarrow>
      level_completes r g =
        (length (enemy_missiles (entities_phase r g)) = 0 \<and>
         missiles_spawned_this_level (entities_phase r g) \<ge> missiles_per_level (entities_phase r g) \<and>
         list_ex c_active (cities (entities_phase r g)))) \<and>
   (game_over g \<longrightarrow> \<not> level_completes r g) \<and>
   (game_over g \<and> reachable g \<longrightarrow> \<not> list_ex c_active (cities g)) \<and>
   (level_completes r g \<longrightarrow>
      enemy_missiles (update r g) = [] \<and> list_ex c_active (cities (update r g)))"
proof (cases "game_over g")
  case True
  have "\<not> list_ex c_active (cities g)" if "reachable g"
  proof -
    from reachable_inv [OF that] True have "list_all (\<lambda>c. \<not> c_active c) (cities g)"
      by (simp add: game_inv_def)
    then show ?thesis
      by (simp add: list_all_iff list_ex_iff)
  qed
  with True show ?thesis
    by (simp add: level_completes_def update_def)
next
  case False
  have a: "level_completes r g = level_complete_cond (entities_phase r g)"
    by (simp add: level_completes_def update_level [OF False])
  have b: "enemy_missiles (update r g) = [] \<and> list_ex c_active (cities (update r g))"
    if "level_complete_cond (entities_phase r g)"
  proof -
    have "list_ex c_active (cities (update r g)) = list_ex c_active (cities (entities_phase r g))"
      by (simp add: list_ex_active update_active [OF False])
    moreover have "enemy_missiles (update r g) = enemy_missiles (entities_phase r g)"
      using that False
      by (simp add: update_playing level_check_def level_complete_fields game_over_check_eq)
    ultimately show ?thesis
      using that by (simp add: level_complete_cond_def)
  qed
  from False a b show ?thesis
    by (auto simp: level_complete_cond_def)
qed

theorem level_completion_iff_witness:
  "\<not> game_over last_tick_state \<and>
   level_completes rand0 last_tick_state \<and>
   enemy_missiles (update rand0 last_tick_state) = [] \<and>
   reachable last_city_state \<and> \<not> game_over last_city_state \<and>
   \<not> level_completes rand0 last_city_state \<and>
   reachable game_over_state \<and> game_over game_over_state \<and>
   \<not> level_completes rand0 game_over_state \<and>
   \<not> list_ex c_active (cities game_over_state)"
proof -
  have a: "length (enemy_missiles (entities_phase rand0 last_tick_state)) = 0 \<and>
           missiles_spawned_this_level (entities_phase rand0 last_tick_state)
             \<ge> missiles_per_level (entities_phase rand0 last_tick_state) \<and>
           list_ex c_active (cities (entities_phase rand0 last_tick_state))"
    using last_tick_cond by (simp add: level_complete_cond_def)
  have b: "length (enemy_missiles (entities_phase rand0 last_city_state)) \<noteq> 0"
    unfolding last_city_entities by simp
  show ?thesis
    using level_completion_iff [of last_tick_state rand0]
      level_completion_iff [of last_city_state rand0]
      level_completion_iff [of game_over_state rand0]
      a b last_tick_playing last_city_playing last_city_reachable
      game_over_state_reachable game_over_state_over
    by simp
qed

text \<open>Claim C4. When the level-completion branch is taken, the score grows by 100 for
  each active city and 50 for each base, every base is active again with the starting
  ammunition, the quota is the sum of the bases' ammunition, the level grows by one, the
  spawn interval drops by 5 but not below 30, and the spawn timer and the spawned count
  are 0. For level 1: \<open>level1_inv K H\<close> holds after every run from the initial state
  that stays inside level 1, with \<open>K\<close> missiles destroyed by explosions and \<open>H\<close>
  ground hits (\<open>level1_run_inv\<close>); when the level completes and no missile has reached
  the ground, 30 missiles were destroyed by explosions and the score is
  \<open>30 * 25 + 6 * 100 + 3 * 50\<close>, the level 2 and the quota 30. The concrete state is
  the last tick of such a level: 29 missiles destroyed before, the 30th in this tick.\<close>

theorem level_complete_effects:
  assumes "\<not> game_over g" and "level_complete_cond (entities_phase r g)"
  shows "score (update r g) =
           score (entities_phase r g)
           + 100 * int (length (filter c_active (cities (entities_phase r g))))
           + 50 * int (length (bases (entities_phase r g))) \<and>
         bases (update r g) =
           map (\<lambda>b. b\<lparr>b_active := True, ammo := starting_ammo g\<rparr>) (bases (entities_phase r g)) \<and>
         list_all (\<lambda>b. b_active b \<and> ammo b = starting_ammo g) (bases (update r g)) \<and>
         missiles_per_level (update r g) = sum_list (map ammo (bases (update r g))) \<and>
         level (update r g) = level g + 1 \<and>
         enemy_spawn_rate (update r g) = max 30 (enemy_spawn_rate g - 5) \<and>
         30 \<le> enemy_spawn_rate (update r g) \<and>
         enemy_spawn_timer (update r g) = 0 \<and>
         missiles_spawned_this_level (update r g) = 0 \<and>
         (level1_inv K H g \<and> H + tick_hits r g = 0 \<longrightarrow>
            K + tick_kills r g = 30 \<and>
            score (update r g) = 30 * 25 + 6 * 100 + 3 * 50 \<and>
            level (update r g) = 2 \<and> missiles_per_level (update r g) = 30)"
proof -
  define m where "m = entities_phase r g"
  have st: "static_fields g m"
    unfolding m_def by (rule static_entities_phase)
  have u: "update r g = level_complete r (game_over_check m)"
    using assms by (simp add: update_playing m_def level_check_def)
  have b: "bases (update r g) = map (\<lambda>b. b\<lparr>b_active := True, ammo := starting_ammo g\<rparr>) (bases m)"
    using st by (simp add: u level_complete_fields game_over_check_eq static_fields_def)
  have "missiles_per_level (update r g) = int (length (bases m)) * starting_ammo g"
    using st by (simp add: u level_complete_fields game_over_check_eq static_fields_def)
  also have "\<dots> = sum_list (map ammo (bases (update r g)))"
    unfolding b by (simp add: comp_def sum_list_triv)
  finally have q: "missiles_per_level (update r g) = sum_list (map ammo (bases (update r g)))" .
  have rest: "score (update r g) =
           score m + 100 * int (length (filter c_active (cities m))) + 50 * int (length (bases m))"
    "level (update r g) = level g + 1"
    "enemy_spawn_rate (update r g) = max 30 (enemy_spawn_rate g - 5)"
    "enemy_spawn_timer (update r g) = 0"
    "missiles_spawned_this_level (update r g) = 0"
    using st by (simp_all add: u level_complete_fields game_over_check_eq static_fields_def)
  have a: "list_all (\<lambda>b. b_active b \<and> ammo b = starting_ammo g) (bases (update r g))"
    unfolding b by (simp add: list_all_iff)
  have lc: "level_completes r g"
    using assms by (simp add: level_completes_def update_level)
  have l1: "K + tick_kills r g = 30 \<and>
            score (update r g) = 30 * 25 + 6 * 100 + 3 * 50 \<and>
            level (update r g) = 2 \<and> missiles_per_level (update r g) = 30"
    if "level1_inv K H g" "H + tick_hits r g = 0"
    by (rule level1_completion [OF that(1) assms(1) lc that(2)])
  have r30: "30 \<le> enemy_spawn_rate (update r g)"
    unfolding rest(3) by simp
  have l1': "level1_inv K H g \<and> H + tick_hits r g = 0 \<longrightarrow>
            K + tick_kills r g = 30 \<and>
            score (update r g) = 30 * 25 + 6 * 100 + 3 * 50 \<and>
            level (update r g) = 2 \<and> missiles_per_level (update r g) = 30"
  proof (intro impI, elim conjE)
    assume "level1_inv K H g" "H + tick_hits r g = 0"
    then show "K + tick_kills r g = 30 \<and>
            score (update r g) = 30 * 25 + 6 * 100 + 3 * 50 \<and>
            level (update r g) = 2 \<and> missiles_per_level (update r g) = 30"
      by (rule l1)
  qed
  show ?thesis
    unfolding m_def [symmetric]
    by (intro conjI) (rule b q rest a r30 l1')+
qed

theorem level_complete_effects_witness:
  "\<not> game_over last_tick_state \<and>
   level_complete_cond (entities_phase rand0 last_tick_state) \<and>
   score last_tick_state = 29 * 25 \<and>
   score (update rand0 last_tick_state) = 30 * 25 + 6 * 100 + 3 * 50 \<and>
   level last_tick_state = 1 \<and>
   level (update rand0 last_tick_state) = 2 \<and>
   map ammo (bases last_tick_state) = [2, 2, 2] \<and>
   map ammo (bases (update rand0 last_tick_state)) = [10, 10, 10] \<and>
   missiles_per_level (update rand0 last_tick_state) = 30 \<and>
   enemy_spawn_rate (update rand0 last_tick_state) = 55 \<and>
   enemy_spawn_timer (update rand0 last_tick_state) = 0 \<and>
   missiles_spawned_this_level (update rand0 last_tick_state) = 0 \<and>
   level1_inv 29 0 last_tick_state \<and>
   tick_kills rand0 last_tick_state = 1 \<and> tick_hits rand0 last_tick_state = 0"
proof -
  have i: "level1_inv 29 0 last_tick_state"
    by (simp add: level1_inv_def last_tick_state_def Game_init_eq)
  show ?thesis
    using level_complete_effects [OF last_tick_playing last_tick_cond, of 29 0]
      last_tick_playing last_tick_cond i last_tick_counts
    unfolding last_tick_entities
    by (simp add: last_tick_state_def Game_init_eq)
qed

text \<open>Claim C5. An update that starts in PLAYING ends in GAME\_OVER exactly when every
  city is inactive after the entity loops of that tick, whatever missiles are left and
  whatever bases are active; in particular it does when every city was already inactive
  before. Hence in every reachable state the flag is set exactly when every city is
  inactive. The check stands before the level-completion test in the source; the two
  commute, so the update equals the one that runs the check last.\<close>

theorem game_over_same_tick:
  assumes "\<not> game_over g"
  shows "(list_all (\<lambda>c. \<not> c_active c) (cities g) \<longrightarrow> game_over (update r g)) \<and>
         game_over (update r g) = list_all (\<lambda>c. \<not> c_active c) (cities (entities_phase r g)) \<and>
         game_over (update r g) = list_all (\<lambda>c. \<not> c_active c) (cities (update r g)) \<and>
         update r g = game_over_check (level_check r (entities_phase r g)) \<and>
         (reachable g' \<longrightarrow> game_over g' = list_all (\<lambda>c. \<not> c_active c) (cities g'))"
proof -
  have a: "game_over (update r g) = list_all (\<lambda>c. \<not> c_active c) (cities (entities_phase r g))"
    by (rule update_game_over [OF assms])
  have b: "list_all (\<lambda>c. \<not> c_active c) (cities (update r g)) =
           list_all (\<lambda>c. \<not> c_active c) (cities (entities_phase r g))"
    by (simp add: list_all_inactive update_active [OF assms])
  have c: "update r g = game_over_check (level_check r (entities_phase r g))"
    using assms by (simp add: update_playing checks_commute)
  have d: "game_over g' = list_all (\<lambda>c. \<not> c_active c) (cities g')" if "reachable g'"
    using reachable_inv [OF that] by (simp add: game_inv_def)
  from a b c d inactive_entities_phase [of g r] show ?thesis by simp
qed

theorem game_over_same_tick_witness:
  "reachable last_city_state \<and>
   \<not> game_over last_city_state \<and>
   list_ex c_active (cities last_city_state) \<and>
   game_over (update rand0 last_city_state) \<and>
   length (enemy_missiles (update rand0 last_city_state)) = 6 \<and>
   list_all b_active (bases (update rand0 last_city_state)) \<and>
   \<not> game_over cities_lost_state \<and>
   list_all (\<lambda>c. \<not> c_active c) (cities cities_lost_state) \<and>
   game_over (update rand0 cities_lost_state) \<and>
   \<not> game_over (update rand0 last_tick_state) \<and>
   reachable game_over_state \<and>
   list_all (\<lambda>c. \<not> c_active c) (cities game_over_state)"
proof -
  have p: "\<not> game_over cities_lost_state"
    by (simp add: cities_lost_state_def last_city_state_def Game_init_eq)
  have q: "list_all (\<lambda>c. \<not> c_active c) (cities cities_lost_state)"
    by (simp add: cities_lost_state_def last_city_state_def Game_init_eq)
  have r: "list_all (\<lambda>c. \<not> c_active c) (cities (entities_phase rand0 last_city_state))"
    unfolding last_city_entities by (simp add: Game_init_eq)
  have s: "\<not> list_all (\<lambda>c. \<not> c_active c) (cities (entities_phase rand0 last_tick_state))"
    unfolding last_tick_entities by (simp add: last_tick_state_def Game_init_eq)
  have u: "length (enemy_missiles (update rand0 last_city_state)) = 6 \<and>
           list_all b_active (bases (update rand0 last_city_state))"
    unfolding game_over_state_def [symmetric] game_over_state_eq
    by (simp add: last_city_state_def Game_init_eq)
  have v: "list_ex c_active (cities last_city_state)"
    by (simp add: last_city_state_def Game_init_eq)
  from game_over_same_tick [OF last_city_playing, of rand0] r
  have 1: "game_over (update rand0 last_city_state)" by blast
  from game_over_same_tick [OF p, of rand0] q
  have 2: "game_over (update rand0 cities_lost_state)" by blast
  from game_over_same_tick [OF last_tick_playing, of rand0] s
  have 3: "\<not> game_over (update rand0 last_tick_state)" by blast
  from game_over_same_tick [OF last_tick_playing, of rand0 game_over_state]
    game_over_state_reachable game_over_state_over
  have 4: "list_all (\<lambda>c. \<not> c_active c) (cities game_over_state)" by blast
  from 1 2 3 4 p q u v last_city_playing last_city_reachable game_over_state_reachable
  show ?thesis by blast
qed

text \<open>Claim C6. \<^verbatim>\<open>fire\<close> returns a missile exactly when the base is active and has
  ammunition; the missile starts at the base and aims at the target, and the ammunition
  drops by one. Otherwise it returns nothing and the base is unchanged. After \<open>N\<close>
  calls on an active base with at least \<open>N\<close> rounds, all of them succeeded and \<open>N\<close>
  rounds are gone; the ammunition never becomes negative, and in every reachable state
  each base holds between 0 and the starting ammunition.\<close>

theorem fire_spec:
  "(fst (fire b tx ty) \<noteq> None) = (b_active b \<and> ammo b > 0) \<and>
   (b_active b \<and> ammo b > 0 \<longrightarrow>
      (\<exists>m. fire b tx ty = (Some m, b\<lparr>ammo := ammo b - 1\<rparr>) \<and>
           m_x m = b_x b \<and> m_y m = b_y b \<and> start_x m = b_x b \<and> start_y m = b_y b \<and>
           target_x m = tx \<and> target_y m = ty \<and> speed m = PLAYER_MISSILE_SPEED)) \<and>
   (\<not> (b_active b \<and> ammo b > 0) \<longrightarrow> fire b tx ty = (None, b)) \<and>
   (b_active b \<and> int (length ts) \<le> ammo b \<longrightarrow>
      ammo (snd (fire_many b ts)) = ammo b - int (length ts) \<and>
      list_all (\<lambda>res. res \<noteq> None) (fst (fire_many b ts))) \<and>
   (0 \<le> ammo b \<longrightarrow> 0 \<le> ammo (snd (fire_many b ts))) \<and>
   (reachable g \<longrightarrow> list_all (\<lambda>b. 0 \<le> ammo b \<and> ammo b \<le> starting_ammo g) (bases g))"
proof -
  have "list_all (\<lambda>b. 0 \<le> ammo b \<and> ammo b \<le> starting_ammo g) (bases g)" if "reachable g"
    using reachable_inv [OF that] by (simp add: game_inv_def)
  then show ?thesis
    using fire_many_ammo [of b ts] fire_many_nonneg [of b ts]
    by (simp add: fire_def PlayerMissile_def Missile_def)
qed

theorem fire_spec_witness:
  "fst (fire (MissileBase 100 560 ''left'') 300 200) \<noteq> None \<and>
   ammo (snd (fire (MissileBase 100 560 ''left'') 300 200)) = 9 \<and>
   ammo (snd (fire_many (MissileBase 100 560 ''left'') [(300, 200), (310, 220), (50, 90)])) = 7 \<and>
   fire ((MissileBase 100 560 ''left'')\<lparr>ammo := 0\<rparr>) 300 200 =
     (None, (MissileBase 100 560 ''left'')\<lparr>ammo := 0\<rparr>) \<and>
   fire ((MissileBase 100 560 ''left'')\<lparr>b_active := False\<rparr>) 300 200 =
     (None, (MissileBase 100 560 ''left'')\<lparr>b_active := False\<rparr>) \<and>
   reachable game_over_state \<and>
   list_all (\<lambda>b. 0 \<le> ammo b \<and> ammo b \<le> starting_ammo game_over_state) (bases game_over_state)"
  using fire_spec [of "MissileBase 100 560 ''left''" 300 200 "[(300, 200), (310, 220), (50, 90)]" game_over_state]
    fire_spec [of "(MissileBase 100 560 ''left'')\<lparr>ammo := 0\<rparr>" 300 200 "[]" game_over_state]
    fire_spec [of "(MissileBase 100 560 ''left'')\<lparr>b_active := False\<rparr>" 300 200 "[]" game_over_state]
    game_over_state_reachable
  by (auto simp add: MissileBase_def)

text \<open>Claim C7. For an explosion after \<open>n\<close> updates: the radius is \<open>2 * n\<close>
  capped at 60, it grows by 2 per update while \<open>growing\<close> and stays at 60 afterwards,
  \<open>growing\<close> holds exactly while the radius is below 60, the timer is \<open>45 - n\<close>, and
  the explosion is taken out of the list by the update that brings the timer to 0.
  Every explosion of a reachable state is such an explosion, with \<open>n\<close> the number of
  ticks it has lived.\<close>

theorem blast_lifetime:
  "radius (explosion_after n (Explosion x y)) = min (EXPLOSION_GROWTH_RATE * int n) EXPLOSION_MAX_RADIUS \<and>
   growing (explosion_after n (Explosion x y)) = (radius (explosion_after n (Explosion x y)) < EXPLOSION_MAX_RADIUS) \<and>
   radius (explosion_after n (Explosion x y)) \<le> radius (explosion_after (Suc n) (Explosion x y)) \<and>
   radius (explosion_after (Suc n) (Explosion x y)) =
     (if growing (explosion_after n (Explosion x y))
      then radius (explosion_after n (Explosion x y)) + EXPLOSION_GROWTH_RATE
      else EXPLOSION_MAX_RADIUS) \<and>
   radius (explosion_after n (Explosion x y)) \<le> EXPLOSION_MAX_RADIUS \<and>
   timer (explosion_after n (Explosion x y)) = EXPLOSION_DURATION - int n \<and>
   snd (explosion_update (explosion_after n (Explosion x y))) = (Suc n < nat EXPLOSION_DURATION) \<and>
   explosion_loop [explosion_after n (Explosion x y)] =
     (if timer (explosion_after (Suc n) (Explosion x y)) > 0
      then [explosion_after (Suc n) (Explosion x y)] else []) \<and>
   (reachable g \<and> e \<in> set (explosions g) \<longrightarrow>
      e = explosion_after (nat (EXPLOSION_DURATION - timer e)) (Explosion (e_x e) (e_y e)) \<and>
      0 < timer e \<and> timer e \<le> EXPLOSION_DURATION \<and> radius e \<le> EXPLOSION_MAX_RADIUS)"
proof -
  have l: "explosion_loop [explosion_after n (Explosion x y)] =
     (if timer (explosion_after (Suc n) (Explosion x y)) > 0
      then [explosion_after (Suc n) (Explosion x y)] else [])"
    by (simp add: explosion_after_Suc explosion_update_def Let_def)
  have s: "snd (explosion_update (explosion_after n (Explosion x y))) = (Suc n < nat EXPLOSION_DURATION)"
    by (auto simp add: explosion_after_fresh explosion_update_def explosion_grow_def Let_def
          EXPLOSION_DURATION_def)
  have g: "e = explosion_after (nat (EXPLOSION_DURATION - timer e)) (Explosion (e_x e) (e_y e)) \<and>
      0 < timer e \<and> timer e \<le> EXPLOSION_DURATION \<and> radius e \<le> EXPLOSION_MAX_RADIUS"
    if "reachable g" "e \<in> set (explosions g)"
  proof -
    from reachable_explosions [OF that(1)] that(2) have ok: "blast_ok e"
      by (simp add: all_blasts_ok_def list_all_iff)
    from blast_ok_after [OF ok] ok show ?thesis
      by (simp add: blast_ok_def)
  qed
  have c: "radius (explosion_after n (Explosion x y)) = min (EXPLOSION_GROWTH_RATE * int n) EXPLOSION_MAX_RADIUS \<and>
   growing (explosion_after n (Explosion x y)) = (radius (explosion_after n (Explosion x y)) < EXPLOSION_MAX_RADIUS) \<and>
   radius (explosion_after n (Explosion x y)) \<le> radius (explosion_after (Suc n) (Explosion x y)) \<and>
   radius (explosion_after (Suc n) (Explosion x y)) =
     (if growing (explosion_after n (Explosion x y))
      then radius (explosion_after n (Explosion x y)) + EXPLOSION_GROWTH_RATE
      else EXPLOSION_MAX_RADIUS) \<and>
   radius (explosion_after n (Explosion x y)) \<le> EXPLOSION_MAX_RADIUS \<and>
   timer (explosion_after n (Explosion x y)) = EXPLOSION_DURATION - int n"
    by (auto simp add: explosion_after_fresh EXPLOSION_MAX_RADIUS_def EXPLOSION_DURATION_def
          EXPLOSION_GROWTH_RATE_def min_def)
  from c l s g show ?thesis by blast
qed

theorem blast_lifetime_witness:
  "radius (explosion_after 10 (Explosion 300 200)) = 20 \<and>
   growing (explosion_after 10 (Explosion 300 200)) \<and>
   radius (explosion_after 30 (Explosion 300 200)) = 60 \<and>
   \<not> growing (explosion_after 30 (Explosion 300 200)) \<and>
   radius (explosion_after 44 (Explosion 300 200)) = 60 \<and>
   timer (explosion_after 44 (Explosion 300 200)) = 1 \<and>
   explosion_loop [explosion_after 44 (Explosion 300 200)] = [] \<and>
   reachable game_over_state \<and>
   explosion_after 1 (Explosion 600 565) \<in> set (explosions game_over_state) \<and>
   timer (explosion_after 1 (Explosion 600 565)) = 44"
proof -
  have m: "explosion_after 1 (Explosion 600 565) \<in> set (explosions game_over_state)"
    unfolding game_over_state_eq by simp
  show ?thesis
    using blast_lifetime [of 10 300 200 game_over_state "explosion_after 1 (Explosion 600 565)"]
      blast_lifetime [of 30 300 200 game_over_state "explosion_after 1 (Explosion 600 565)"]
      blast_lifetime [of 44 300 200 game_over_state "explosion_after 1 (Explosion 600 565)"]
      blast_lifetime [of 45 300 200 game_over_state "explosion_after 1 (Explosion 600 565)"]
      blast_lifetime [of 29 300 200 game_over_state "explosion_after 1 (Explosion 600 565)"]
      blast_lifetime [of 1 600 565 game_over_state "explosion_after 1 (Explosion 600 565)"]
      m game_over_state_reachable
    by (simp add: EXPLOSION_MAX_RADIUS_def EXPLOSION_DURATION_def EXPLOSION_GROWTH_RATE_def)
qed

text \<open>Claim C8. When an enemy missile, after its move, lies within the radius of some
  explosion of the list (\<open>collides_with\<close>, which is the containment test of
  \<open>collides_with_iff\<close>), the loop body removes it and adds 25 to the score, and changes
  nothing else: no city and no base is touched, also when the missile is at or below
  the ground line. Over the whole loop the score grows by 25 for each missile removed
  in this way (\<open>blast_kills\<close>) and by nothing else.\<close>

theorem blast_destroys_threat:
  assumes "list_ex (\<lambda>e. collides_with e (m_x (missile_update m0)) (m_y (missile_update m0))) (explosions g)"
  shows "resolve_threat m0 g = (None, g\<lparr>score := score g + 25\<rparr>) \<and>
         enemy_loop (m0 # ms) kept g = enemy_loop ms kept (g\<lparr>score := score g + 25\<rparr>) \<and>
         blast_kills (m0 # ms) g = Suc (blast_kills ms (g\<lparr>score := score g + 25\<rparr>)) \<and>
         score (enemy_loop (m0 # ms) kept g) =
           score g + 25 + 25 * int (blast_kills ms (g\<lparr>score := score g + 25\<rparr>)) \<and>
         score (enemy_phase g') = score g' + 25 * int (blast_kills (enemy_missiles g') g')"
proof -
  have r: "resolve_threat m0 g = (None, g\<lparr>score := score g + 25\<rparr>)"
    using assms by (simp add: resolve_threat_def Let_def destroyed_by_iff)
  have k: "blast_kills (m0 # ms) g = Suc (blast_kills ms (g\<lparr>score := score g + 25\<rparr>))"
    using assms by (simp add: r destroyed_by_iff)
  have s: "score (enemy_loop (m0 # ms) kept g) =
           score g + 25 + 25 * int (blast_kills ms (g\<lparr>score := score g + 25\<rparr>))"
    unfolding enemy_loop_score k by simp
  from r k s show ?thesis
    by (simp add: enemy_phase_def enemy_loop_score)
qed

theorem blast_destroys_threat_witness:
  "list_ex (\<lambda>e. collides_with e (m_x (missile_update (falling 300 565 198)))
                                 (m_y (missile_update (falling 300 565 198))))
     (explosions last_tick_state) \<and>
   resolve_threat (falling 300 565 198) last_tick_state =
     (None, last_tick_state\<lparr>score := score last_tick_state + 25\<rparr>) \<and>
   list_ex (\<lambda>e. collides_with e (m_x (missile_update (falling 200 565 366)))
                                 (m_y (missile_update (falling 200 565 366))))
     (explosions ground_blast_state) \<and>
   m_y (missile_update (falling 200 565 366)) \<ge> real_of_int (SCREEN_HEIGHT - 50) \<and>
   resolve_threat (falling 200 565 366) ground_blast_state =
     (None, ground_blast_state\<lparr>score := score ground_blast_state + 25\<rparr>) \<and>
   blast_kills (enemy_missiles last_tick_state) last_tick_state = 1 \<and>
   score (enemy_phase last_tick_state) = score last_tick_state + 25"
proof -
  have a: "list_ex (\<lambda>e. collides_with e (m_x (missile_update (falling 300 565 198)))
                                 (m_y (missile_update (falling 300 565 198))))
     (explosions last_tick_state)"
    by (simp add: last_tick_state_def falling_update falling_pos collides_with_iff
          explosion_after_fresh power2_eq_square)
  have b: "list_ex (\<lambda>e. collides_with e (m_x (missile_update (falling 200 565 366)))
                                 (m_y (missile_update (falling 200 565 366))))
     (explosions ground_blast_state)"
    by (simp add: ground_blast_state_def falling_update falling_pos collides_with_iff
          explosion_after_fresh power2_eq_square)
  have c: "m_y (missile_update (falling 200 565 366)) \<ge> real_of_int (SCREEN_HEIGHT - 50)"
    by (simp add: falling_update falling_pos SCREEN_HEIGHT_def)
  have k: "blast_kills (enemy_missiles last_tick_state) last_tick_state = 1"
    using a by (simp add: last_tick_state_def destroyed_by_iff)
  show ?thesis
    using blast_destroys_threat [OF a, of "[]" "[]" last_tick_state]
      blast_destroys_threat [OF b, of "[]" "[]" last_tick_state] a b c k
    by simp
qed

text \<open>Claim C9. The velocity of a new missile is the zero vector when start and target
  coincide, and otherwise the unit vector from start to target times the speed, so that
  its length is the speed (the absolute value of the speed in general; both speeds of
  the source are positive). The arrival test holds exactly when the Euclidean distance
  to the target is strictly below the speed. Python's floats are read as real numbers.\<close>

theorem missile_kinematics:
  "(sx = tx \<and> sy = ty \<longrightarrow> compute_velocity sx sy tx ty spd = (0, 0)) \<and>
   (\<not> (sx = tx \<and> sy = ty) \<longrightarrow>
    (let d = sqrt ((tx - sx)\<^sup>2 + (ty - sy)\<^sup>2); v = compute_velocity sx sy tx ty spd in
      d > 0 \<and> v = ((tx - sx) / d * spd, (ty - sy) / d * spd) \<and>
      ((tx - sx) / d)\<^sup>2 + ((ty - sy) / d)\<^sup>2 = 1 \<and>
      sqrt ((fst v)\<^sup>2 + (snd v)\<^sup>2) = \<bar>spd\<bar> \<and>
      (0 \<le> spd \<longrightarrow> sqrt ((fst v)\<^sup>2 + (snd v)\<^sup>2) = spd))) \<and>
   (velocity_x (Missile sx sy tx ty spd col), velocity_y (Missile sx sy tx ty spd col)) =
     compute_velocity sx sy tx ty spd \<and>
   speed (Missile sx sy tx ty spd col) = spd \<and>
   has_reached_target m =
     (sqrt ((m_x m - target_x m)\<^sup>2 + (m_y m - target_y m)\<^sup>2) < speed m)"
proof -
  have a: "sx = tx \<and> sy = ty \<longrightarrow> compute_velocity sx sy tx ty spd = (0, 0)"
    by (simp add: compute_velocity_def)
  have b: "let d = sqrt ((tx - sx)\<^sup>2 + (ty - sy)\<^sup>2); v = compute_velocity sx sy tx ty spd in
      d > 0 \<and> v = ((tx - sx) / d * spd, (ty - sy) / d * spd) \<and>
      ((tx - sx) / d)\<^sup>2 + ((ty - sy) / d)\<^sup>2 = 1 \<and>
      sqrt ((fst v)\<^sup>2 + (snd v)\<^sup>2) = \<bar>spd\<bar> \<and>
      (0 \<le> spd \<longrightarrow> sqrt ((fst v)\<^sup>2 + (snd v)\<^sup>2) = spd)"
    if ne: "\<not> (sx = tx \<and> sy = ty)"
  proof -
    from ne have ne': "\<not> (tx - sx = 0 \<and> ty - sy = 0)" by auto
    note u = unit_direction [OF ne']
    show ?thesis
      unfolding Let_def using u scaled_norm [OF u(2), of spd]
      by (simp add: compute_velocity_def Let_def)
  qed
  have c: "(velocity_x (Missile sx sy tx ty spd col), velocity_y (Missile sx sy tx ty spd col)) =
     compute_velocity sx sy tx ty spd" "speed (Missile sx sy tx ty spd col) = spd"
    by (simp_all add: Missile_def)
  have d: "has_reached_target m =
     (sqrt ((m_x m - target_x m)\<^sup>2 + (m_y m - target_y m)\<^sup>2) < speed m)"
    by (simp add: has_reached_target_def)
  from a b c d show ?thesis by blast
qed

theorem missile_kinematics_witness:
  "compute_velocity 100 560 100 560 5 = (0, 0) \<and>
   compute_velocity 0 0 3 4 5 = (3, 4) \<and>
   sqrt ((fst (compute_velocity 0 0 3 4 5))\<^sup>2 + (snd (compute_velocity 0 0 3 4 5))\<^sup>2) = 5 \<and>
   has_reached_target ((PlayerMissile 0 0 3 4)\<lparr>m_x := 3, m_y := 0\<rparr>) \<and>
   \<not> has_reached_target ((PlayerMissile 0 0 3 9)\<lparr>m_x := 0, m_y := 5\<rparr>)"
proof -
  have s16: "sqrt 16 = 4"
  proof -
    have "sqrt ((4::real)\<^sup>2) = 4" by simp
    then show ?thesis by simp
  qed
  show ?thesis
    using missile_kinematics [of 100 100 560 560 5 CYAN "(PlayerMissile 0 0 3 4)\<lparr>m_x := 3, m_y := 0\<rparr>"]
      missile_kinematics [of 0 3 0 4 5 CYAN "(PlayerMissile 0 0 3 9)\<lparr>m_x := 0, m_y := 5\<rparr>"]
    by (simp add: Let_def sqrt_25 s16 PlayerMissile_def Missile_def PLAYER_MISSILE_SPEED_def)
qed

text \<open>Claim C10. With the game-over flag set, \<^verbatim>\<open>update\<close> returns the state as it is.
  Of the events, the space key restarts the game, \<^verbatim>\<open>QUIT\<close> clears \<open>running\<close> and
  nothing else, and every other event leaves the state as it is.\<close>

theorem update_game_over_frame:
  assumes "game_over g"
  shows "update r g = g \<and>
         handle_event (KEYDOWN K_SPACE) g = Inr (restart g) \<and>
         (\<forall>e. e \<noteq> KEYDOWN K_SPACE \<longrightarrow>
              handle_event e g = Inr (if e = QUIT then g\<lparr>running := False\<rparr> else g))"
proof -
  have "handle_event e g = Inr (if e = QUIT then g\<lparr>running := False\<rparr> else g)"
    if "e \<noteq> KEYDOWN K_SPACE" for e
    using that assms by (cases e) auto
  with assms show ?thesis
    by (simp add: update_def)
qed

theorem update_game_over_frame_witness:
  "reachable game_over_state \<and>
   game_over game_over_state \<and>
   update rand0 game_over_state = game_over_state \<and>
   handle_event (MOUSEBUTTONDOWN 1 300 200) game_over_state = Inr game_over_state \<and>
   handle_event (KEYDOWN K_SPACE) game_over_state = Inr (restart game_over_state) \<and>
   restart game_over_state \<noteq> game_over_state"
proof -
  have "game_over (restart game_over_state) \<noteq> game_over game_over_state"
    unfolding restart_game_over_state using game_over_state_over by (simp add: Game_init_eq)
  then have "restart game_over_state \<noteq> game_over_state" by auto
  then show ?thesis
    using update_game_over_frame [OF game_over_state_over, of rand0] game_over_state_over
      game_over_state_reachable
    by simp
qed

section \<open>Further properties\<close>

text \<open>Property X1. From a reachable state, one iteration of \<^verbatim>\<open>Game.run\<close> (the events
  of the queue, then the update) raises no \<^verbatim>\<open>IndexError\<close> and ends in a reachable
  state, whatever the events and the random draws.\<close>

theorem tick_never_fails:
  assumes "reachable g" "rand_ok r"
  shows "\<exists>g'. tick es r g = Inr g' \<and> reachable g'"
proof -
  from handle_events_total [OF assms(1), of es]
  obtain g1 where g1: "handle_events es g = Inr g1" "reachable g1" by blast
  from reach_update [OF g1(2) assms(2)] g1(1) show ?thesis
    by (simp add: tick_def)
qed

theorem tick_never_fails_witness:
  "reachable game_over_state \<and> rand_ok rand0 \<and>
   tick [MOUSEBUTTONDOWN 1 300 200, KEYDOWN K_SPACE, MOUSEBUTTONDOWN 3 300 200] rand0 game_over_state
     \<noteq> Inl IndexError"
  using tick_never_fails [OF game_over_state_reachable rand0_ok,
      of "[MOUSEBUTTONDOWN 1 300 200, KEYDOWN K_SPACE, MOUSEBUTTONDOWN 3 300 200]"]
    game_over_state_reachable rand0_ok
  by auto

text \<open>Property X2. In every reachable state the number of missiles spawned this level
  is between 0 and the quota, the quota is 30, which is the number of bases times the
  starting ammunition, the spawn interval is between 30 and 60, the level is at least 1,
  and the spawn timer and the score are not negative.\<close>

theorem reachable_pacing:
  assumes "reachable g"
  shows "pacing_inv g \<and> missiles_per_level g = 30 \<and>
         missiles_per_level g = int (length (bases g)) * starting_ammo g"
proof -
  have "pacing_inv g"
    using assms
  proof (induction rule: reachable.induct)
    case reach_init
    show ?case by (simp add: pacing_inv_def Game_init_eq)
  next
    case (reach_event g e g')
    then show ?case by (simp add: pacing_event)
  next
    case (reach_update g r)
    then show ?case by (simp add: pacing_update reachable_inv)
  qed
  moreover from reachable_inv [OF assms] layout_length [of g]
  have "missiles_per_level g = 30" "length (bases g) = 3" "starting_ammo g = 10"
    by (simp_all add: game_inv_def)
  ultimately show ?thesis by simp
qed

theorem reachable_pacing_witness:
  "reachable game_over_state \<and> pacing_inv game_over_state \<and>
   missiles_spawned_this_level game_over_state = 12 \<and> missiles_per_level game_over_state = 30"
  using reachable_pacing [OF game_over_state_reachable] game_over_state_reachable
  unfolding game_over_state_eq
  by (simp add: last_city_state_def Game_init_eq)

text \<open>Property X3. The scenario of a single ground hit: a missile that no explosion
  contains reaches the ground line in a column within 20 units of an active city. The
  loop body removes the missile, deactivates the first such city, appends an explosion
  at that city's position, and changes nothing else; in particular not the score.\<close>

theorem ground_hit_scenario:
  assumes "layout g" "list_ex (city_match x) (cities g)"
    "\<not> destroyed_by (explosions g) (m_x (missile_update m0)) (m_y (missile_update m0))"
    "m_y (missile_update m0) \<ge> real_of_int (SCREEN_HEIGHT - 50)"
    "m_x (missile_update m0) = x"
  shows "\<exists>pre c post.
           cities g = pre @ c # post \<and> \<not> list_ex (city_match x) pre \<and> city_match x c \<and>
           resolve_threat m0 g =
             (None, g\<lparr> cities := pre @ c\<lparr>c_active := False\<rparr> # post,
                        explosions := explosions g @ [Explosion (c_x c) (c_y c)] \<rparr>)"
proof -
  from layout_exclusive [OF assms(1,2)] have nb: "\<not> list_ex (base_match x) (bases g)" .
  from hit_city_some [OF assms(2)] obtain pre c post where
    h: "cities g = pre @ c # post" "\<not> list_ex (city_match x) pre" "city_match x c"
       "hit_city x (cities g) = (pre @ c\<lparr>c_active := False\<rparr> # post, [Explosion (c_x c) (c_y c)])"
    by blast
  have "ground_impact x g =
          g\<lparr> cities := pre @ c\<lparr>c_active := False\<rparr> # post,
             explosions := explosions g @ [Explosion (c_x c) (c_y c)] \<rparr>"
    by (simp add: ground_impact_def Let_def h(4) hit_base_none [OF nb])
  moreover have "resolve_threat m0 g = (None, ground_impact x g)"
    using assms(3,4,5) by (simp add: resolve_threat_def Let_def)
  ultimately show ?thesis
    using h(1,2,3) by auto
qed

theorem ground_hit_scenario_witness:
  "reachable last_city_state \<and> layout last_city_state \<and>
   list_ex (city_match 600) (cities last_city_state) \<and>
   resolve_threat (falling 600 565 366) last_city_state =
     (None, last_city_state
              \<lparr> cities := map (\<lambda>c. c\<lparr>c_active := False\<rparr>) (cities Game_init),
                explosions := [Explosion 600 565] \<rparr>) \<and>
   score last_city_state = 0"
proof -
  have l: "layout last_city_state"
    by (rule reachable_layout [OF last_city_reachable])
  have c: "list_ex (city_match 600) (cities last_city_state)"
    by (simp add: last_city_state_def Game_init_eq city_match_def)
  have d: "\<not> destroyed_by (explosions last_city_state) (m_x (missile_update (falling 600 565 366)))
             (m_y (missile_update (falling 600 565 366)))"
    "m_y (missile_update (falling 600 565 366)) \<ge> real_of_int (SCREEN_HEIGHT - 50)"
    "m_x (missile_update (falling 600 565 366)) = 600"
    by (simp_all add: last_city_state_def Game_init_eq falling_update falling_pos SCREEN_HEIGHT_def)
  have r: "resolve_threat (falling 600 565 366) last_city_state =
     (None, last_city_state
              \<lparr> cities := map (\<lambda>c. c\<lparr>c_active := False\<rparr>) (cities Game_init),
                explosions := [Explosion 600 565] \<rparr>)"
    using d
    by (simp add: resolve_threat_def Let_def ground_impact_def last_city_state_def Game_init_eq)
  from ground_hit_scenario [OF l c d] l c r last_city_reachable show ?thesis
    by (simp add: last_city_state_def Game_init_eq)
qed

end
